theory Spec2Isabelle
  imports Main
begin

section \<open>Errors, the world, and asynchronous computations\<close>

text \<open>
  The errors a call can be rejected with: the four \<open>Error\<close> objects thrown by
  \<open>utils.ts\<close> and \<open>storage.ts\<close>, the \<open>SyntaxError\<close> of \<open>JSON.parse\<close>, and the
  errors of the filesystem API, told apart by their \<open>code\<close> field as the source does
  (\<open>error.code === 'ENOENT'\<close>, \<open>error.code === 'EPERM'\<close>).
\<close>

datatype error =
    Missing_key
  | Invalid_key
  | No_data_path
  | Invalid_JSON_data
  | Not_absolute
  | Syntax_error
  | Bad_argument
  | ENOENT
  | EPERM
  | EIO string

text \<open>
  The state the module runs in.  \<open>currentDataPath\<close> is the module variable of
  \<open>utils.ts\<close> (\<open>None\<close> is \<open>undefined\<close>).  The rest is the platform behind
  \<open>@tauri-apps/api\<close>: regular files (path and text, in enumeration order),
  directories, the platform's \<open>path.dataDir()\<close>, the errors that the coming calls of
  \<open>fs.readTextFile\<close> fail with (one per call: a file held by another process, a
  failing disk), and two counters that make the retry loop observable: the number of
  \<open>fs.readTextFile\<close> calls and the milliseconds spent in \<open>sleep\<close>.
\<close>

record world =
  currentDataPath :: "string option"
  dataDir :: string
  files :: "(string \<times> string) list"
  dirs :: "string list"
  read_faults :: "error list"
  read_calls :: nat
  slept :: nat

text \<open>
  An \<open>async\<close> function is a function of the world that is either rejected with an
  error or resolved with a value, and returns the world it leaves.
\<close>

type_synonym 'a promise = "world \<Rightarrow> (error + 'a) \<times> world"

definition resolved :: "'a \<Rightarrow> 'a promise" where
  "resolved x w = (Inr x, w)"

definition rejected :: "error \<Rightarrow> 'a promise" where
  "rejected e w = (Inl e, w)"

definition await :: "'a promise \<Rightarrow> ('a \<Rightarrow> 'b promise) \<Rightarrow> 'b promise" where
  "await m f w = (case m w of (Inl e, w') \<Rightarrow> (Inl e, w') | (Inr x, w') \<Rightarrow> f x w')"

definition try_catch :: "'a promise \<Rightarrow> (error \<Rightarrow> 'a promise) \<Rightarrow> 'a promise" where
  "try_catch m h w = (case m w of (Inl e, w') \<Rightarrow> h e w' | (Inr x, w') \<Rightarrow> (Inr x, w'))"

section \<open>JavaScript strings and truthiness\<close>

text \<open>
  Strings are lists of code units; the model covers the code units U+0000 to U+00FF.
  \<open>js_or\<close> is \<open>a || b\<close> on values of type \<open>string | undefined\<close>: \<open>undefined\<close> and the
  empty string are falsy.
\<close>

definition truthy :: "string option \<Rightarrow> bool" where
  "truthy a = (case a of None \<Rightarrow> False | Some s \<Rightarrow> s \<noteq> [])"

definition js_or :: "string option \<Rightarrow> string option \<Rightarrow> string option" where
  "js_or a b = (if truthy a then a else b)"

text \<open>
  A promise object, as a value: whatever it is going to be resolved with, the object
  itself is truthy.  \<open>promise_value\<close> is what \<open>await\<close>, or returning the object from an
  \<open>async\<close> function, yields.
\<close>

datatype 'a promise_object = Promise_object 'a

definition truthy_object :: "'a promise_object \<Rightarrow> bool" where
  "truthy_object p = True"

fun promise_value :: "'a promise_object \<Rightarrow> 'a" where
  "promise_value (Promise_object x) = x"

text \<open>\<open>String.prototype.trim\<close>: the white space and line terminators below U+0100.\<close>

definition is_space :: "char \<Rightarrow> bool" where
  "is_space c = (c \<in> set [CHR 0x09, CHR 0x0A, CHR 0x0B, CHR 0x0C, CHR 0x0D, CHR 0x20, CHR 0xA0])"

definition trim :: "string \<Rightarrow> string" where
  "trim s = rev (dropWhile is_space (rev (dropWhile is_space s)))"

text \<open>
  \<open>encodeURIComponent\<close>: the unreserved characters stay, every other code unit becomes
  the bytes of its UTF-8 encoding, each written \<open>%XX\<close> in upper-case hexadecimal.
\<close>

definition hex_digit :: "nat \<Rightarrow> char" where
  "hex_digit n = ''0123456789ABCDEF'' ! (n mod 16)"

definition percent :: "nat \<Rightarrow> string" where
  "percent b = [CHR ''%'', hex_digit (b div 16), hex_digit b]"

definition unreserved :: "char \<Rightarrow> bool" where
  "unreserved c =
     (c \<in> set ''ABCDEFGHIJKLMNOPQRSTUVWXYZabcdefghijklmnopqrstuvwxyz0123456789-_.!~*'' \<or>
      c = CHR 0x27 \<or> c = CHR ''('' \<or> c = CHR '')'')"

definition encode_unit :: "char \<Rightarrow> string" where
  "encode_unit c =
     (let n = (of_char c :: nat) in
      if unreserved c then [c]
      else if n < 128 then percent n
      else percent (192 + n div 64) @ percent (128 + n mod 64))"

definition encodeURIComponent :: "string \<Rightarrow> string" where
  "encodeURIComponent s = concat (map encode_unit s)"

text \<open>\<open>.replace(/\<^verbatim>\<open>\\<close>*/g, '-')\<close> and \<open>.replace(/%20/g, ' ')\<close>.\<close>

definition replace_star :: "string \<Rightarrow> string" where
  "replace_star s = map (\<lambda>c. if c = CHR ''*'' then CHR ''-'' else c) s"

fun replace_pct20 :: "string \<Rightarrow> string" where
  "replace_pct20 (a # b # c # s) =
     (if a = CHR ''%'' \<and> b = CHR ''2'' \<and> c = CHR ''0'' then CHR '' '' # replace_pct20 s
      else a # replace_pct20 (b # c # s))"
| "replace_pct20 s = s"

section \<open>The path API\<close>

text \<open>
  \<open>@tauri-apps/api/path\<close> is outside the repository.  Its functions are modelled on a
  POSIX platform, as documented: the separator is \<open>/\<close>, trailing separators are
  ignored, \<open>basename\<close> returns the last portion of a path and removes the extension
  given as second argument from its end.
\<close>

definition ends_with :: "string \<Rightarrow> string \<Rightarrow> bool" where
  "ends_with s ext = (length ext \<le> length s \<and> drop (length s - length ext) s = ext)"

definition is_sep :: "char \<Rightarrow> bool" where
  "is_sep c = (c = CHR ''/'')"

definition last_portion :: "string \<Rightarrow> string" where
  "last_portion p = rev (takeWhile (\<lambda>c. \<not> is_sep c) (dropWhile is_sep (rev p)))"

definition basename :: "string \<Rightarrow> string \<Rightarrow> string" where
  "basename p ext =
     (let name = last_portion p in
      if ext \<noteq> [] \<and> ends_with name ext then take (length name - length ext) name else name)"

definition dirname :: "string \<Rightarrow> string" where
  "dirname p =
     (let rest = dropWhile (\<lambda>c. \<not> is_sep c) (dropWhile is_sep (rev p));
          dir = dropWhile is_sep rest
      in if rest = [] then ''.'' else if dir = [] then ''/'' else rev dir)"

definition extname :: "string \<Rightarrow> string" where
  "extname p =
     (let name = last_portion p;
          ext = takeWhile (\<lambda>c. c \<noteq> CHR ''.'') (rev name)
      in if CHR ''.'' \<in> set name \<and> Suc (length ext) \<noteq> length name then CHR ''.'' # rev ext
         else [])"

definition join :: "string \<Rightarrow> string \<Rightarrow> string" where
  "join a b =
     (if a = [] then b
      else if is_sep (last a) then a @ b
      else a @ ''/'' @ b)"

definition isAbsolute :: "string \<Rightarrow> bool" where
  "isAbsolute p = (p \<noteq> [] \<and> is_sep (hd p))"

fun split_path :: "string \<Rightarrow> string list" where
  "split_path [] = [[]]"
| "split_path (c # s) =
     (if is_sep c then [] # split_path s
      else (case split_path s of [] \<Rightarrow> [[c]] | x # xs \<Rightarrow> (c # x) # xs))"

fun resolve_dots :: "string list \<Rightarrow> string list \<Rightarrow> string list" where
  "resolve_dots acc [] = rev acc"
| "resolve_dots acc (x # xs) =
     (if x = [] \<or> x = ''.'' then resolve_dots acc xs
      else if x = ''..'' then resolve_dots (tl acc) xs
      else resolve_dots (x # acc) xs)"

definition normalize :: "string \<Rightarrow> string" where
  "normalize p =
     (let parts = resolve_dots [] (split_path p);
          body = concat (map (\<lambda>x. CHR ''/'' # x) parts)
      in if isAbsolute p then (if body = [] then ''/'' else body)
         else (if body = [] then ''.'' else tl body))"

section \<open>The filesystem API\<close>

text \<open>
  \<open>@tauri-apps/api/fs\<close> is outside the repository as well.  The model is a flat
  filesystem: a path names at most one regular file and the directories are listed
  apart.  A path is looked up without its trailing separators.  A missing file or
  directory is reported with code \<open>ENOENT\<close>.
\<close>

definition canon :: "string \<Rightarrow> string" where
  "canon p =
     (let q = rev (dropWhile is_sep (rev p)) in if q = [] \<and> p \<noteq> [] then ''/'' else q)"

definition ancestors :: "string \<Rightarrow> string list" where
  "ancestors p = [canon (take (Suc n) p). n \<leftarrow> [0..<length p], is_sep (p ! n)] @ [canon p]"

definition readTextFile :: "string \<Rightarrow> string promise" where
  "readTextFile p w =
     (let w' = w\<lparr>read_calls := Suc (read_calls w)\<rparr> in
      case read_faults w of
        e # es \<Rightarrow> (Inl e, w'\<lparr>read_faults := es\<rparr>)
      | [] \<Rightarrow> (case map_of (files w) (canon p) of
                None \<Rightarrow> (Inl ENOENT, w')
              | Some text \<Rightarrow> (Inr text, w')))"

text \<open>Writing an entry of an association list: in place when the key is there, at
  the end otherwise.  It serves for the files and for the properties of an object.\<close>

fun put :: "'k \<Rightarrow> 'v \<Rightarrow> ('k \<times> 'v) list \<Rightarrow> ('k \<times> 'v) list" where
  "put k v [] = [(k, v)]"
| "put k v ((q, t) # kvs) = (if q = k then (k, v) # kvs else (q, t) # put k v kvs)"

text \<open>\<open>writeFile\<close> replaces the whole content of the file; the directory of the
  file has to exist.\<close>

definition writeFile :: "string \<Rightarrow> string \<Rightarrow> unit promise" where
  "writeFile p text w =
     (if canon (dirname p) \<in> set (dirs w)
      then (Inr (), w\<lparr>files := put (canon p) text (files w)\<rparr>)
      else (Inl ENOENT, w))"

text \<open>\<open>createDir(p, { recursive: true })\<close>: the directory and its ancestors exist afterwards.\<close>

definition createDir :: "string \<Rightarrow> unit promise" where
  "createDir p w =
     (Inr (), w\<lparr>dirs := dirs w @ filter (\<lambda>d. d \<notin> set (dirs w)) (remdups (ancestors p))\<rparr>)"

definition removeFile :: "string \<Rightarrow> unit promise" where
  "removeFile p w =
     (if canon p \<in> fst ` set (files w)
      then (Inr (), w\<lparr>files := filter (\<lambda>(q, t). q \<noteq> canon p) (files w)\<rparr>)
      else (Inl ENOENT, w))"

definition entries :: "world \<Rightarrow> string \<Rightarrow> string list" where
  "entries w d = filter (\<lambda>p. p \<noteq> canon d \<and> dirname p = canon d) (map fst (files w) @ dirs w)"

text \<open>\<open>removeDir(p)\<close>, without the \<open>recursive\<close> option: the path is taken as it is
  written and has to name an empty directory.\<close>

definition removeDir :: "string \<Rightarrow> unit promise" where
  "removeDir p w =
     (if canon p \<notin> set (dirs w) then (Inl ENOENT, w)
      else if entries w p \<noteq> [] then (Inl (EIO ''ENOTEMPTY''), w)
      else (Inr (), w\<lparr>dirs := filter (\<lambda>d. d \<noteq> canon p) (dirs w)\<rparr>))"

record FileEntry =
  path :: string
  name :: string

definition readDir :: "string \<Rightarrow> FileEntry list promise" where
  "readDir d w =
     (if canon d \<in> set (dirs w)
      then (Inr (map (\<lambda>p. \<lparr>path = p, name = last_portion p\<rparr>) (entries w d)), w)
      else (Inl ENOENT, w))"

section \<open>JSON\<close>

text \<open>
  \<open>JSON.stringify\<close> and \<open>JSON.parse\<close> belong to the language.  A document is a JSON
  value; an object is the list of its members in the order of its properties.  The
  numbers are those of the language, a type \<open>'n\<close> that the model leaves open: how a
  number is written and which number a numeric token denotes is floating-point
  arithmetic, and both are parameters of the model, with nothing assumed about them.
  \<open>number_text N x\<close> is the text that \<open>JSON.stringify\<close> writes for the number \<open>x\<close>, and
  \<open>text_number N t\<close> is the number that \<open>JSON.parse\<close> reads from the numeric token \<open>t\<close>.
\<close>

record 'n numbers =
  number_text :: "'n \<Rightarrow> string"
  text_number :: "string \<Rightarrow> 'n"

datatype 'n json =
    JNull
  | JBool bool
  | JNum 'n
  | JStr string
  | JArr "'n json list"
  | JObj "(string \<times> 'n json) list"

text \<open>
  \<open>JSON_stringify N v space\<close> is \<open>JSON.stringify(v, null, space)\<close> for a document \<open>v\<close>:
  without white space when \<open>space\<close> is 0, and otherwise one member or element per line,
  indented by \<open>space\<close> blanks per level, with a blank after each colon.
\<close>

abbreviation dquote :: char where
  "dquote \<equiv> CHR 0x22"

abbreviation backslash :: char where
  "backslash \<equiv> CHR 0x5C"

definition is_digit :: "char \<Rightarrow> bool" where
  "is_digit c = (c \<in> set ''0123456789'')"

definition digit_val :: "char \<Rightarrow> nat" where
  "digit_val c = of_char c - 48"

definition lower_hex :: "nat \<Rightarrow> char" where
  "lower_hex n = ''0123456789abcdef'' ! (n mod 16)"

definition escape_unit :: "char \<Rightarrow> string" where
  "escape_unit c =
     (if c = dquote then [backslash, dquote]
      else if c = backslash then [backslash, backslash]
      else if c = CHR 0x08 then [backslash, CHR ''b'']
      else if c = CHR 0x0C then [backslash, CHR ''f'']
      else if c = CHR 0x0A then [backslash, CHR ''n'']
      else if c = CHR 0x0D then [backslash, CHR ''r'']
      else if c = CHR 0x09 then [backslash, CHR ''t'']
      else if (of_char c :: nat) < 32
        then [backslash, CHR ''u'', CHR ''0'', CHR ''0'',
              lower_hex (of_char c div 16), lower_hex (of_char c)]
      else [c])"

definition quote :: "string \<Rightarrow> string" where
  "quote s = dquote # concat (map escape_unit s) @ [dquote]"

definition newline :: "nat \<Rightarrow> nat \<Rightarrow> string" where
  "newline space ind = (if space = 0 then [] else CHR 0x0A # replicate ind (CHR '' ''))"

definition colon :: "nat \<Rightarrow> string" where
  "colon space = (if space = 0 then '':'' else '': '')"

fun stringify_value :: "'n numbers \<Rightarrow> nat \<Rightarrow> nat \<Rightarrow> 'n json \<Rightarrow> string"
  and stringify_elements :: "'n numbers \<Rightarrow> nat \<Rightarrow> nat \<Rightarrow> 'n json list \<Rightarrow> string"
  and stringify_members :: "'n numbers \<Rightarrow> nat \<Rightarrow> nat \<Rightarrow> (string \<times> 'n json) list \<Rightarrow> string"
where
  "stringify_value N space ind JNull = ''null''"
| "stringify_value N space ind (JBool b) = (if b then ''true'' else ''false'')"
| "stringify_value N space ind (JNum x) = number_text N x"
| "stringify_value N space ind (JStr s) = quote s"
| "stringify_value N space ind (JArr vs) =
     (if vs = [] then ''[]''
      else ''['' @ newline space (ind + space) @ stringify_elements N space (ind + space) vs
           @ newline space ind @ '']'')"
| "stringify_value N space ind (JObj ms) =
     (if ms = [] then ''{}''
      else ''{'' @ newline space (ind + space) @ stringify_members N space (ind + space) ms
           @ newline space ind @ ''}'')"
| "stringify_elements N space ind [] = []"
| "stringify_elements N space ind (v # vs) =
     stringify_value N space ind v
     @ (if vs = [] then [] else '','' @ newline space ind @ stringify_elements N space ind vs)"
| "stringify_members N space ind [] = []"
| "stringify_members N space ind ((k, v) # ms) =
     quote k @ colon space @ stringify_value N space ind v
     @ (if ms = [] then [] else '','' @ newline space ind @ stringify_members N space ind ms)"

definition JSON_stringify :: "'n numbers \<Rightarrow> 'n json \<Rightarrow> nat \<Rightarrow> string" where
  "JSON_stringify N v space = stringify_value N (min space 10) 0 v"

text \<open>
  \<open>JSON.parse\<close>: a recursive-descent parser of the JSON grammar.  The fuel bounds the
  nesting and the number of siblings; \<open>JSON_parse\<close> gives it the length of the text,
  which is always enough (each value and each separator takes a character; lemma
  \<open>JSON_parse_fuel\<close>).

  A numeric token is an optional minus sign, a whole part without a leading zero, an
  optional fraction and an optional exponent.  The parser takes the longest run of the
  characters that occur in such tokens and accepts it when it is a token.

  In a string, an escape with four hexadecimal digits is read when it denotes one of the
  code units of the model, U+0000 to U+00FF.
\<close>

definition is_ws :: "char \<Rightarrow> bool" where
  "is_ws c = (c \<in> set [CHR 0x20, CHR 0x09, CHR 0x0A, CHR 0x0D])"

definition skip_ws :: "string \<Rightarrow> string" where
  "skip_ws s = dropWhile is_ws s"

definition starts_with :: "string \<Rightarrow> string \<Rightarrow> bool" where
  "starts_with s p = (take (length p) s = p)"

definition number_char :: "char \<Rightarrow> bool" where
  "number_char c = (c \<in> set ''-+.eE0123456789'')"

definition exponent_ok :: "string \<Rightarrow> bool" where
  "exponent_ok r =
     (case r of
        [] \<Rightarrow> True
      | c # r' \<Rightarrow>
          (c = CHR ''e'' \<or> c = CHR ''E'') \<and>
          (let ds = (if starts_with r' ''+'' \<or> starts_with r' ''-'' then tl r' else r')
           in ds \<noteq> [] \<and> list_all is_digit ds))"

definition fraction_ok :: "string \<Rightarrow> bool" where
  "fraction_ok r =
     (case r of
        [] \<Rightarrow> True
      | c # r' \<Rightarrow>
          if c = CHR ''.'' then takeWhile is_digit r' \<noteq> [] \<and> exponent_ok (dropWhile is_digit r')
          else exponent_ok r)"

definition is_number_token :: "string \<Rightarrow> bool" where
  "is_number_token t =
     (let t1 = (if starts_with t ''-'' then tl t else t);
          whole = takeWhile is_digit t1
      in whole \<noteq> [] \<and> (hd whole \<noteq> CHR ''0'' \<or> length whole = 1) \<and>
         fraction_ok (dropWhile is_digit t1))"

definition parse_number :: "'n numbers \<Rightarrow> string \<Rightarrow> ('n json \<times> string) option" where
  "parse_number N s =
     (let token = takeWhile number_char s
      in if is_number_token token then Some (JNum (text_number N token), dropWhile number_char s)
         else None)"

definition hex_val :: "char \<Rightarrow> nat option" where
  "hex_val c =
     (if is_digit c then Some (digit_val c)
      else if c \<in> set ''abcdef'' then Some (of_char c - 87)
      else if c \<in> set ''ABCDEF'' then Some (of_char c - 55)
      else None)"

definition unescape :: "char \<Rightarrow> char option" where
  "unescape e =
     (if e = dquote then Some dquote
      else if e = backslash then Some backslash
      else if e = CHR ''/'' then Some (CHR ''/'')
      else if e = CHR ''b'' then Some (CHR 0x08)
      else if e = CHR ''f'' then Some (CHR 0x0C)
      else if e = CHR ''n'' then Some (CHR 0x0A)
      else if e = CHR ''r'' then Some (CHR 0x0D)
      else if e = CHR ''t'' then Some (CHR 0x09)
      else None)"

definition cons_result :: "'a \<Rightarrow> ('a list \<times> string) option \<Rightarrow> ('a list \<times> string) option" where
  "cons_result x r = (case r of None \<Rightarrow> None | Some (xs, rest) \<Rightarrow> Some (x # xs, rest))"

fun parse_chars :: "string \<Rightarrow> (string \<times> string) option" where
  "parse_chars [] = None"
| "parse_chars (c # s) =
     (if c = dquote then Some ([], s)
      else if c = backslash then
        (case s of
           [] \<Rightarrow> None
         | e # s' \<Rightarrow>
             if e = CHR ''u'' then
               (case s' of
                  h3 # h2 # h1 # h0 # s'' \<Rightarrow>
                    (case (hex_val h3, hex_val h2, hex_val h1, hex_val h0) of
                       (Some a, Some b, Some c', Some d) \<Rightarrow>
                         (let n = ((a * 16 + b) * 16 + c') * 16 + d
                          in if n < 256 then cons_result (char_of n) (parse_chars s'') else None)
                     | _ \<Rightarrow> None)
                | _ \<Rightarrow> None)
             else (case unescape e of
                     None \<Rightarrow> None
                   | Some x \<Rightarrow> cons_result x (parse_chars s')))
      else if (of_char c :: nat) < 32 then None
      else cons_result c (parse_chars s))"

text \<open>
  The members of an object are defined as properties one after the other: a name that
  comes again keeps its place and takes the later value.  The properties of an object are
  in this order: first those whose name is an array index (the decimal numeral, without
  a leading zero, of an integer below \<open>2\<^sup>3\<^sup>2 - 1\<close>), by ascending index, then the other
  ones as they were defined.
\<close>

definition index_val :: "string \<Rightarrow> int" where
  "index_val s = foldl (\<lambda>n c. 10 * n + int (digit_val c)) 0 s"

definition is_array_index :: "string \<Rightarrow> bool" where
  "is_array_index s =
     (s \<noteq> [] \<and> list_all is_digit s \<and> (length s = 1 \<or> hd s \<noteq> CHR ''0'') \<and>
      index_val s < 4294967295)"

definition property_order :: "(string \<times> 'v) list \<Rightarrow> (string \<times> 'v) list" where
  "property_order ms =
     sort_key (\<lambda>(k, v). index_val k) (filter (\<lambda>(k, v). is_array_index k) ms)
     @ filter (\<lambda>(k, v). \<not> is_array_index k) ms"

definition properties :: "(string \<times> 'v) list \<Rightarrow> (string \<times> 'v) list" where
  "properties ms = property_order (foldl (\<lambda>object (k, v). put k v object) [] ms)"

fun parse_value :: "'n numbers \<Rightarrow> nat \<Rightarrow> string \<Rightarrow> ('n json \<times> string) option"
  and parse_elements :: "'n numbers \<Rightarrow> nat \<Rightarrow> string \<Rightarrow> ('n json list \<times> string) option"
  and parse_members :: "'n numbers \<Rightarrow> nat \<Rightarrow> string \<Rightarrow> ((string \<times> 'n json) list \<times> string) option"
where
  "parse_value N 0 s = None"
| "parse_value N (Suc n) s =
     (let t = skip_ws s in
      if starts_with t ''null'' then Some (JNull, drop 4 t)
      else if starts_with t ''true'' then Some (JBool True, drop 4 t)
      else if starts_with t ''false'' then Some (JBool False, drop 5 t)
      else if starts_with t [dquote] then
        (case parse_chars (tl t) of None \<Rightarrow> None | Some (x, r) \<Rightarrow> Some (JStr x, r))
      else if starts_with t ''['' then
        (if starts_with (skip_ws (tl t)) '']'' then Some (JArr [], tl (skip_ws (tl t)))
         else (case parse_elements N n (tl t) of None \<Rightarrow> None | Some (vs, r) \<Rightarrow> Some (JArr vs, r)))
      else if starts_with t ''{'' then
        (if starts_with (skip_ws (tl t)) ''}'' then Some (JObj [], tl (skip_ws (tl t)))
         else (case parse_members N n (tl t) of None \<Rightarrow> None | Some (ms, r) \<Rightarrow> Some (JObj (properties ms), r)))
      else parse_number N t)"
| "parse_elements N 0 s = None"
| "parse_elements N (Suc n) s =
     (case parse_value N n s of
        None \<Rightarrow> None
      | Some (v, r) \<Rightarrow>
          (let t = skip_ws r in
           if starts_with t '','' then cons_result v (parse_elements N n (tl t))
           else if starts_with t '']'' then Some ([v], tl t)
           else None))"
| "parse_members N 0 s = None"
| "parse_members N (Suc n) s =
     (let t = skip_ws s in
      if starts_with t [dquote] then
        (case parse_chars (tl t) of
           None \<Rightarrow> None
         | Some (k, r) \<Rightarrow>
             (let t1 = skip_ws r in
              if starts_with t1 '':'' then
                (case parse_value N n (tl t1) of
                   None \<Rightarrow> None
                 | Some (v, r') \<Rightarrow>
                     (let t2 = skip_ws r' in
                      if starts_with t2 '','' then cons_result (k, v) (parse_members N n (tl t2))
                      else if starts_with t2 ''}'' then Some ([(k, v)], tl t2)
                      else None))
              else None))
      else None)"

definition JSON_parse :: "'n numbers \<Rightarrow> string \<Rightarrow> error + 'n json" where
  "JSON_parse N text =
     (case parse_value N (length text) text of
        None \<Rightarrow> Inl Syntax_error
      | Some (v, r) \<Rightarrow> if skip_ws r = [] then Inr v else Inl Syntax_error)"

text \<open>
  The documents that survive the round trip through their text: each number is written
  as a numeric token that is read back as the same number, and the members of an object
  have different names and are in the order of the properties of an object.
\<close>

fun serializable :: "'n numbers \<Rightarrow> 'n json \<Rightarrow> bool"
  and serializable_elements :: "'n numbers \<Rightarrow> 'n json list \<Rightarrow> bool"
  and serializable_members :: "'n numbers \<Rightarrow> (string \<times> 'n json) list \<Rightarrow> bool"
where
  "serializable N JNull = True"
| "serializable N (JBool b) = True"
| "serializable N (JNum x) =
     (is_number_token (number_text N x) \<and> text_number N (number_text N x) = x)"
| "serializable N (JStr s) = True"
| "serializable N (JArr vs) = serializable_elements N vs"
| "serializable N (JObj ms) =
     (distinct (map fst ms) \<and> property_order ms = ms \<and> serializable_members N ms)"
| "serializable_elements N [] = True"
| "serializable_elements N (v # vs) = (serializable N v \<and> serializable_elements N vs)"
| "serializable_members N [] = True"
| "serializable_members N ((k, v) # ms) = (serializable N v \<and> serializable_members N ms)"

text \<open>Two predicates on the text around a value: what may follow a number (no character
  of a numeric token), and what a value starts with (no white space, no closing bracket).\<close>

definition ends_number :: "string \<Rightarrow> bool" where
  "ends_number rest = (case rest of [] \<Rightarrow> True | c # _ \<Rightarrow> \<not> number_char c)"

definition starts_value :: "string \<Rightarrow> bool" where
  "starts_value s =
     (case s of [] \<Rightarrow> False | c # _ \<Rightarrow> \<not> is_ws c \<and> c \<noteq> CHR '']'' \<and> c \<noteq> CHR ''}'')"

section \<open>utils.ts\<close>

record StorageOptions =
  dataPath :: "string option"

record WriteOptions = StorageOptions +
  validate :: "bool option"
  prettyPrinting :: "bool option"

definition getDefaultDataPath :: "string promise" where
  "getDefaultDataPath w = resolved (join (dataDir w) ''storage'') w"

text \<open>\<open>isNil(directory)\<close> holds of \<open>undefined\<close> and \<open>null\<close>, the \<open>None\<close> of the model.\<close>

definition setDataPath :: "string option \<Rightarrow> unit promise" where
  "setDataPath directory w =
     (case directory of
        None \<Rightarrow> (Inr (), w\<lparr>currentDataPath := None\<rparr>)
      | Some d \<Rightarrow>
          if \<not> isAbsolute d then rejected Not_absolute w
          else (Inr (), w\<lparr>currentDataPath := Some (normalize d)\<rparr>))"

text \<open>
  \<open>return (new Promise((resolve) => resolve(currentDataPath))) || await (getDefaultDataPath())\<close>:
  the left operand of \<open>||\<close> is the promise object, not the value it is resolved with.
\<close>

definition getDataPath :: "string option promise" where
  "getDataPath w =
     (let p = Promise_object (currentDataPath w) in
      if truthy_object p then resolved (promise_value p) w
      else await getDefaultDataPath (\<lambda>d. resolved (Some d)) w)"

text \<open>
  \<open>options.dataPath || await getDataPath()\<close>, as \<open>getFileName\<close>, \<open>keys\<close> and \<open>clear\<close>
  write it: \<open>getDataPath\<close> is called only when the option is falsy.
\<close>

definition dataPath_or_current :: "string option \<Rightarrow> string option promise" where
  "dataPath_or_current option = (if truthy option then resolved option else getDataPath)"

definition keyFileName :: "string \<Rightarrow> string" where
  "keyFileName key = basename key ''.json'' @ ''.json''"

definition escapedFileName :: "string \<Rightarrow> string" where
  "escapedFileName key = replace_pct20 (replace_star (encodeURIComponent (keyFileName key)))"

text \<open>The key has type \<open>string\<close>: \<open>!key\<close> holds of the empty string and
  \<open>isString(key)\<close> always holds.\<close>

definition getFileName :: "string \<Rightarrow> StorageOptions \<Rightarrow> string promise" where
  "getFileName key options =
     (if key = [] then rejected Missing_key
      else if length (trim key) = 0 then rejected Invalid_key
      else await (dataPath_or_current (dataPath options)) (\<lambda>dataPath'.
        case dataPath' of
          None \<Rightarrow> rejected No_data_path
        | Some dir \<Rightarrow>
            if dir = [] then rejected No_data_path
            else resolved (join dir (escapedFileName key))))"

definition getLockFileName :: "string \<Rightarrow> string" where
  "getLockFileName fileName = fileName @ ''.lock''"

section \<open>storage.ts\<close>

definition sleep :: "nat \<Rightarrow> unit promise" where
  "sleep time w = (Inr (), w\<lparr>slept := slept w + time\<rparr>)"

text \<open>
  The functions that call \<open>JSON.stringify\<close> or \<open>JSON.parse\<close> take the numbers of the
  language as their first argument \<open>N\<close>.  The parameter \<open>times\<close> of \<open>readFile\<close> is
  \<open>retries\<close> here.
\<close>

function readFile :: "'n numbers \<Rightarrow> string \<Rightarrow> nat \<Rightarrow> string promise" where
  "readFile N fileName retries =
     try_catch (readTextFile fileName) (\<lambda>error.
       if error = ENOENT then resolved (JSON_stringify N (JObj []) 0)
       else if error = EPERM \<and> retries < 10
         then await (sleep 1000) (\<lambda>_. readFile N fileName (retries + 1))
       else rejected error)"
  by pat_completeness auto
termination
  by (relation "measure (\<lambda>(N, fileName, retries). 10 - retries)") auto

declare readFile.simps [simp del]

definition get :: "'n numbers \<Rightarrow> string \<Rightarrow> StorageOptions \<Rightarrow> 'n json promise" where
  "get N key options =
     await (getFileName key \<lparr>dataPath = dataPath options\<rparr>) (\<lambda>fileName.
     await (createDir (dirname fileName)) (\<lambda>_.
     await (readFile N fileName 0) (\<lambda>text.
       case JSON_parse N text of
         Inl e \<Rightarrow> rejected e
       | Inr parsed \<Rightarrow> resolved parsed)))"

text \<open>
  \<open>getMany\<close> reduces the keys with an \<open>async\<close> function from the initial value \<open>{}\<close>.
  What the function is given as \<open>prev\<close> is the plain object at the first key and, from
  the second key on, the promise object returned for the key before.
  \<open>prev[key] = await get(key, options)\<close> sets a property of whatever \<open>prev\<close> is, and
  \<open>return prev\<close> makes the new promise settle as \<open>prev\<close> does when \<open>prev\<close> is a promise.
  The calls of \<open>get\<close> are taken in the order of the keys.
\<close>

datatype 'n accumulator =
    Plain "(string \<times> 'n json) list"
  | Pending "error + (string \<times> 'n json) list"

definition reducer ::
  "'n numbers \<Rightarrow> StorageOptions \<Rightarrow> 'n accumulator \<Rightarrow> string \<Rightarrow> world \<Rightarrow> 'n accumulator \<times> world"
where
  "reducer N options prev key w =
     (case get N key options w of
        (Inl e, w') \<Rightarrow> (Pending (Inl e), w')
      | (Inr v, w') \<Rightarrow>
          (case prev of
             Plain object \<Rightarrow> (Pending (Inr (put key v object)), w')
           | Pending outcome \<Rightarrow> (Pending outcome, w')))"

fun reduce ::
  "'n numbers \<Rightarrow> StorageOptions \<Rightarrow> string list \<Rightarrow> 'n accumulator \<Rightarrow> world \<Rightarrow> 'n accumulator \<times> world"
where
  "reduce N options [] prev w = (prev, w)"
| "reduce N options (key # keys) prev w =
     (case reducer N options prev key w of (acc, w') \<Rightarrow> reduce N options keys acc w')"

definition getMany ::
  "'n numbers \<Rightarrow> string list \<Rightarrow> StorageOptions \<Rightarrow> (string \<times> 'n json) list promise"
where
  "getMany N keys options w =
     (case reduce N options keys (Plain []) w of
        (Plain object, w') \<Rightarrow> (Inr object, w')
      | (Pending outcome, w') \<Rightarrow> (outcome, w'))"

text \<open>
  \<open>set\<close>; its \<open>json\<close> argument is untyped, \<open>None\<close> is a value that \<open>JSON.stringify\<close>
  maps to \<open>undefined\<close>.  Its fourth parameter and the option \<open>validate\<close> are not used by the function.
\<close>

definition set_storage ::
  "'n numbers \<Rightarrow> string \<Rightarrow> 'n json option \<Rightarrow> WriteOptions \<Rightarrow> unit promise"
where
  "set_storage N key json options =
     await (getFileName key \<lparr>dataPath = dataPath options\<rparr>) (\<lambda>fileName.
       case map_option (\<lambda>v. JSON_stringify N v (if prettyPrinting options = Some True then 2 else 0)) json of
         None \<Rightarrow> rejected Invalid_JSON_data
       | Some data \<Rightarrow>
           if data = [] then rejected Invalid_JSON_data
           else await (createDir (dirname fileName)) (\<lambda>_. writeFile fileName data))"

definition has :: "'n numbers \<Rightarrow> string \<Rightarrow> StorageOptions \<Rightarrow> bool promise" where
  "has N key options =
     await (getFileName key options) (\<lambda>filename.
       try_catch (await (readFile N filename 0) (\<lambda>_. resolved True)) (\<lambda>e.
         if e = ENOENT then resolved False else rejected e))"

text \<open>
  \<open>keys\<close>: the callback given to \<open>filter\<close> is \<open>async\<close>, so what \<open>filter\<close> tests is the
  promise object of the comparison.  In \<open>keys\<close> and in \<open>clear\<close> nothing checks the
  directory: when neither the option nor the current data path is set, the filesystem
  API is called with \<open>undefined\<close> and rejects the call.
\<close>

definition keys :: "StorageOptions \<Rightarrow> string list promise" where
  "keys options =
     await (dataPath_or_current (dataPath options)) (\<lambda>userDataPath.
       case userDataPath of
         None \<Rightarrow> rejected Bad_argument
       | Some dir \<Rightarrow>
           await (createDir dir) (\<lambda>_.
           await (readDir dir) (\<lambda>keys.
             let jsonFiles = filter (\<lambda>key. truthy_object (Promise_object (extname (name key) = ''.json''))) keys
             in resolved (map name jsonFiles))))"

definition remove :: "string \<Rightarrow> StorageOptions \<Rightarrow> unit promise" where
  "remove key options = await (getFileName key options) (\<lambda>filename. removeFile filename)"

definition clear :: "StorageOptions \<Rightarrow> unit promise" where
  "clear options =
     await (dataPath_or_current (dataPath options)) (\<lambda>userData.
       case userData of
         None \<Rightarrow> rejected Bad_argument
       | Some dir \<Rightarrow> removeDir (join dir ''*.json''))"

section \<open>Sample worlds\<close>

text \<open>A machine on which nothing has been stored and no data path has been set, and
  the options that name the directory \<open>/data\<close>.\<close>

definition fresh_world :: world where
  "fresh_world =
     \<lparr>currentDataPath = None, dataDir = ''/home/user/.local/share'', files = [],
      dirs = [''/''], read_faults = [], read_calls = 0, slept = 0\<rparr>"

definition in_data :: StorageOptions where
  "in_data = \<lparr>dataPath = Some ''/data''\<rparr>"

definition write_in_data :: WriteOptions where
  "write_in_data = \<lparr>dataPath = Some ''/data'', validate = None, prettyPrinting = None\<rparr>"

definition pretty_in_data :: WriteOptions where
  "pretty_in_data = \<lparr>dataPath = Some ''/data'', validate = None, prettyPrinting = Some True\<rparr>"

text \<open>A data directory that holds a document, a text file and a subdirectory.\<close>

definition mixed_world :: world where
  "mixed_world =
     fresh_world\<lparr>files := [(''/data/a.json'', ''{}''), (''/data/notes.txt'', ''hello'')],
                 dirs := [''/'', ''/data'', ''/data/cache'']\<rparr>"

section \<open>Basic facts\<close>

lemmas promise_defs = resolved_def rejected_def await_def try_catch_def

lemma readFile_unfold:
  "readFile N f n w =
     (case readTextFile f w of
        (Inr content, w') \<Rightarrow> (Inr content, w')
      | (Inl e, w') \<Rightarrow>
          if e = ENOENT then (Inr ''{}'', w')
          else if e = EPERM \<and> n < 10 then readFile N f (Suc n) (w'\<lparr>slept := slept w' + 1000\<rparr>)
          else (Inl e, w'))"
  by (subst readFile.simps)
     (simp add: promise_defs sleep_def JSON_stringify_def split: prod.splits sum.splits)

lemma readFile_not_ENOENT: "fst (readFile N f n w) \<noteq> Inl ENOENT"
proof (induction N f n arbitrary: w rule: readFile.induct)
  case (1 N fileName retries)
  obtain r w' where rd: "readTextFile fileName w = (r, w')"
    by (cases "readTextFile fileName w")
  show ?case
  proof (cases r)
    case (Inr content)
    with rd show ?thesis by (subst readFile_unfold) simp
  next
    case (Inl e)
    show ?thesis
    proof (cases "e = EPERM \<and> retries < 10")
      case True
      then have "fst (readFile N fileName (retries + 1) (w'\<lparr>slept := slept w' + 1000\<rparr>)) \<noteq> Inl ENOENT"
        using "1.IH" [of e] by simp
      with rd Inl True show ?thesis by (subst readFile_unfold) simp
    next
      case False
      with rd Inl show ?thesis by (subst readFile_unfold) auto
    qed
  qed
qed

lemma getDataPath_eq: "getDataPath w = (Inr (currentDataPath w), w)"
  by (simp add: getDataPath_def truthy_object_def resolved_def)

lemma dataPath_or_current_eq:
  "dataPath_or_current option w = (Inr (js_or option (currentDataPath w)), w)"
  by (simp add: dataPath_or_current_def getDataPath_eq js_or_def resolved_def)

lemma getFileName_resolved:
  assumes "key \<noteq> []" and "trim key \<noteq> []"
    and "js_or (dataPath options) (currentDataPath w) = Some dir" and "dir \<noteq> []"
  shows "getFileName key options w = (Inr (join dir (escapedFileName key)), w)"
  using assms by (simp add: getFileName_def await_def dataPath_or_current_eq resolved_def)

lemma JSON_parse_empty_object: "JSON_parse N ''{}'' = Inr (JObj [])"
  by (simp add: JSON_parse_def skip_ws_def starts_with_def is_ws_def)

lemma readFile_EPERM_run:
  "read_faults w = replicate k EPERM @ fs \<Longrightarrow> n + k \<le> 10 \<Longrightarrow>
   readFile N f n w =
   readFile N f (n + k) (w\<lparr>read_calls := read_calls w + k, read_faults := fs, slept := slept w + 1000 * k\<rparr>)"
proof (induction k arbitrary: n w)
  case 0
  then have "w\<lparr>read_faults := fs\<rparr> = w" by auto
  then show ?case by simp
next
  case (Suc k)
  let ?w = "w\<lparr>read_calls := Suc (read_calls w), read_faults := replicate k EPERM @ fs, slept := slept w + 1000\<rparr>"
  have "readFile N f n w = readFile N f (Suc n) ?w"
    using Suc.prems by (subst readFile_unfold) (simp add: readTextFile_def)
  also have "\<dots> = readFile N f (Suc n + k) (?w\<lparr>read_calls := read_calls ?w + k, read_faults := fs, slept := slept ?w + 1000 * k\<rparr>)"
    using Suc.prems by (intro Suc.IH) simp_all
  finally show ?case by (simp add: add.assoc)
qed

lemma ends_with_append [simp]: "ends_with (x @ e) e"
  by (simp add: ends_with_def)

lemma ends_with_iff: "ends_with s e \<longleftrightarrow> (\<exists>x. s = x @ e)"
proof
  assume "ends_with s e"
  then have "s = take (length s - length e) s @ e"
    by (metis append_take_drop_id ends_with_def)
  then show "\<exists>x. s = x @ e" ..
next
  assume "\<exists>x. s = x @ e"
  then show "ends_with s e" by auto
qed

lemma keyFileName_eq:
  "keyFileName key =
     (if ends_with (last_portion key) ''.json'' then last_portion key
      else last_portion key @ ''.json'')"
proof (cases "ends_with (last_portion key) ''.json''")
  case True
  then obtain stem where "last_portion key = stem @ ''.json''"
    by (auto simp: ends_with_iff)
  then show ?thesis by (simp add: keyFileName_def basename_def)
next
  case False
  then show ?thesis by (simp add: keyFileName_def basename_def)
qed

lemma encodeURIComponent_json:
  "encodeURIComponent (x @ ''.json'') = encodeURIComponent x @ ''.json''"
  by (simp add: encodeURIComponent_def encode_unit_def unreserved_def)

lemma replace_star_json: "replace_star (x @ ''.json'') = replace_star x @ ''.json''"
  by (simp add: replace_star_def)

lemma replace_pct20_json: "replace_pct20 (x @ ''.json'') = replace_pct20 x @ ''.json''"
  by (induction x rule: replace_pct20.induct) auto

lemma escapedFileName_json:
  "escapedFileName key =
     replace_pct20 (replace_star (encodeURIComponent (basename key ''.json''))) @ ''.json''"
  by (simp add: escapedFileName_def keyFileName_def encodeURIComponent_json replace_star_json
      replace_pct20_json)

lemma ends_with_join: "ends_with (join dir (x @ ''.json'')) ''.json''"
  by (simp add: join_def ends_with_def)

lemma trim_eq_Nil: "trim s = [] \<longleftrightarrow> (\<forall>c \<in> set s. is_space c)"
proof
  assume "trim s = []"
  then have "dropWhile is_space (rev (dropWhile is_space s)) = []"
    by (simp add: trim_def)
  then have "\<forall>c \<in> set (dropWhile is_space s). is_space c"
    by (simp add: dropWhile_eq_Nil_conv)
  then have "dropWhile is_space s = []"
    by (metis hd_dropWhile list.set_sel(1))
  then show "\<forall>c \<in> set s. is_space c"
    by (simp add: dropWhile_eq_Nil_conv)
next
  assume "\<forall>c \<in> set s. is_space c"
  then have "dropWhile is_space s = []" by (simp add: dropWhile_eq_Nil_conv)
  then show "trim s = []" by (simp only: trim_def rev.simps dropWhile.simps)
qed

lemma trim_json: "trim (key @ ''.json'') \<noteq> []"
  by (simp add: trim_eq_Nil is_space_def)

lemma last_portion_json:
  assumes "key \<noteq> []" and "\<not> is_sep (last key)"
  shows "last_portion (key @ ''.json'') = last_portion key @ ''.json''"
proof -
  from assms have hd: "\<not> is_sep (hd (rev key))" "rev key \<noteq> []"
    by (simp_all add: hd_rev)
  then have "dropWhile is_sep (rev key) = rev key"
    by (cases "rev key") auto
  then show ?thesis
    by (simp add: last_portion_def is_sep_def)
qed

lemma keyFileName_json:
  assumes "key \<noteq> []" and "\<not> is_sep (last key)" and "\<not> ends_with (last_portion key) ''.json''"
  shows "keyFileName (key @ ''.json'') = keyFileName key"
  using assms by (simp add: keyFileName_eq last_portion_json)


lemma getFileName_same_name:
  assumes "key \<noteq> []" and "trim key \<noteq> []" and "key' \<noteq> []" and "trim key' \<noteq> []"
    and "keyFileName key' = keyFileName key"
  shows "getFileName key' = getFileName key" and "get N key' = get N key"
proof -
  have "escapedFileName key' = escapedFileName key"
    using assms(5) by (simp add: escapedFileName_def)
  with assms(1-4) show same: "getFileName key' = getFileName key"
    by (simp add: getFileName_def fun_eq_iff cong: option.case_cong if_cong)
  show "get N key' = get N key"
    by (intro ext) (simp add: get_def same)
qed

lemma reducer_Pending:
  "\<exists>r1 w1. reducer N options (Pending r) k w = (Pending r1, w1) \<and> (r1 = r \<or> (\<exists>e. r1 = Inl e))"
  by (auto simp: reducer_def split: prod.splits sum.splits)

lemma reducer_Plain:
  "\<exists>r1 w1. reducer N options (Plain []) k w = (Pending r1, w1) \<and>
     ((\<exists>v. r1 = Inr [(k, v)]) \<or> (\<exists>e. r1 = Inl e))"
  by (auto simp: reducer_def split: prod.splits sum.splits)

lemma reduce_Pending:
  "\<exists>r' w'. reduce N options ks (Pending r) w = (Pending r', w') \<and> (r' = r \<or> (\<exists>e. r' = Inl e))"
proof (induction ks arbitrary: r w)
  case Nil
  then show ?case by simp
next
  case (Cons k ks)
  obtain r1 w1 where step: "reducer N options (Pending r) k w = (Pending r1, w1)"
    and r1: "r1 = r \<or> (\<exists>e. r1 = Inl e)"
    using reducer_Pending by blast
  obtain r' w' where "reduce N options ks (Pending r1) w1 = (Pending r', w')"
    and "r' = r1 \<or> (\<exists>e. r' = Inl e)"
    using Cons.IH by blast
  with step r1 show ?case by auto
qed

lemma getMany_Cons:
  "(\<exists>v. fst (getMany N (k # ks) options w) = Inr [(k, v)]) \<or>
   (\<exists>e. fst (getMany N (k # ks) options w) = Inl e)"
proof -
  obtain r1 w1 where step: "reducer N options (Plain []) k w = (Pending r1, w1)"
    and r1: "(\<exists>v. r1 = Inr [(k, v)]) \<or> (\<exists>e. r1 = Inl e)"
    using reducer_Plain by blast
  obtain r' w' where "reduce N options ks (Pending r1) w1 = (Pending r', w')"
    and "r' = r1 \<or> (\<exists>e. r' = Inl e)"
    using reduce_Pending by blast
  with step r1 show ?thesis by (auto simp: getMany_def)
qed

section \<open>JSON texts are parsed back\<close>

subsection \<open>Numbers are parsed back\<close>

lemma digit_number_char: "is_digit c \<Longrightarrow> number_char c"
  by (auto simp: is_digit_def number_char_def)

lemma sign_number_char:
  "number_char (CHR ''-'')" "number_char (CHR ''+'')" "number_char (CHR ''.'')"
  "number_char (CHR ''e'')" "number_char (CHR ''E'')"
  by (simp_all add: number_char_def)

lemma exponent_ok_chars: "exponent_ok r \<Longrightarrow> \<forall>c \<in> set r. number_char c"
proof (cases r)
  case Nil
  then show ?thesis by simp
next
  case (Cons c r')
  assume ok: "exponent_ok r"
  let ?ds = "if starts_with r' ''+'' \<or> starts_with r' ''-'' then tl r' else r'"
  from ok Cons have c: "c = CHR ''e'' \<or> c = CHR ''E''" and ds: "list_all is_digit ?ds"
    by (simp_all add: exponent_ok_def Let_def)
  from c have nc: "number_char c"
    using sign_number_char by blast
  have all_ds: "\<forall>x \<in> set ?ds. number_char x"
    using ds by (simp add: list_all_iff digit_number_char)
  have "\<forall>x \<in> set r'. number_char x"
  proof (cases "starts_with r' ''+'' \<or> starts_with r' ''-''")
    case True
    then obtain s r'' where r': "r' = s # r''" and s: "s = CHR ''+'' \<or> s = CHR ''-''"
      by (cases r') (auto simp: starts_with_def)
    from s have "number_char s" using sign_number_char by blast
    moreover have "\<forall>x \<in> set r''. number_char x"
      using all_ds True r' by simp
    ultimately show ?thesis using r' by simp
  next
    case False
    with all_ds show ?thesis by simp
  qed
  with nc Cons show ?thesis by simp
qed

lemma digits_split_chars:
  assumes "\<forall>c \<in> set (dropWhile is_digit s). number_char c"
  shows "\<forall>c \<in> set s. number_char c"
proof -
  have "set s = set (takeWhile is_digit s) \<union> set (dropWhile is_digit s)"
    by (metis set_append takeWhile_dropWhile_id)
  moreover have "\<forall>c \<in> set (takeWhile is_digit s). number_char c"
    by (meson digit_number_char set_takeWhileD)
  ultimately show ?thesis using assms by auto
qed

lemma fraction_ok_chars: "fraction_ok r \<Longrightarrow> \<forall>c \<in> set r. number_char c"
proof (cases r)
  case Nil
  then show ?thesis by simp
next
  case (Cons c r')
  assume ok: "fraction_ok r"
  show ?thesis
  proof (cases "c = CHR ''.''")
    case True
    with ok Cons have "exponent_ok (dropWhile is_digit r')"
      by (simp add: fraction_ok_def)
    then have "\<forall>x \<in> set (dropWhile is_digit r'). number_char x"
      by (rule exponent_ok_chars)
    then have "\<forall>x \<in> set r'. number_char x"
      by (rule digits_split_chars)
    with True Cons show ?thesis by (simp add: sign_number_char)
  next
    case False
    with ok Cons have "exponent_ok r" by (simp add: fraction_ok_def)
    then show ?thesis by (rule exponent_ok_chars)
  qed
qed

lemma number_token_chars:
  assumes "is_number_token t"
  shows "\<forall>c \<in> set t. number_char c"
proof -
  let ?t1 = "if starts_with t ''-'' then tl t else t"
  from assms have "fraction_ok (dropWhile is_digit ?t1)"
    by (simp add: is_number_token_def Let_def)
  then have "\<forall>c \<in> set (dropWhile is_digit ?t1). number_char c"
    by (rule fraction_ok_chars)
  then have t1: "\<forall>c \<in> set ?t1. number_char c"
    by (rule digits_split_chars)
  show ?thesis
  proof (cases "starts_with t ''-''")
    case True
    then obtain t' where "t = CHR ''-'' # t'"
      by (cases t) (auto simp: starts_with_def)
    with t1 True show ?thesis by (simp add: sign_number_char)
  next
    case False
    with t1 show ?thesis by simp
  qed
qed

lemma number_token_first:
  assumes "is_number_token t"
  shows "\<exists>c cs. t = c # cs \<and> (c = CHR ''-'' \<or> is_digit c)"
proof (cases "starts_with t ''-''")
  case True
  then show ?thesis by (cases t) (auto simp: starts_with_def)
next
  case False
  with assms have "takeWhile is_digit t \<noteq> []"
    by (simp add: is_number_token_def Let_def)
  then show ?thesis by (cases t) (auto split: if_splits)
qed

lemma parse_number_token:
  assumes "is_number_token t" and "ends_number rest"
  shows "parse_number N (t @ rest) = Some (JNum (text_number N t), rest)"
proof -
  have "takeWhile number_char (t @ rest) = t" "dropWhile number_char (t @ rest) = rest"
    using number_token_chars [OF assms(1)] assms(2)
    by (auto simp: ends_number_def takeWhile_append2 dropWhile_append2 split: list.splits)
  with assms(1) show ?thesis by (simp add: parse_number_def)
qed

subsection \<open>Members with different names are kept as they are\<close>

lemma put_new: "k \<notin> fst ` set kvs \<Longrightarrow> put k v kvs = kvs @ [(k, v)]"
  by (induction kvs) auto

lemma foldl_put_distinct:
  "distinct (map fst (acc @ ms)) \<Longrightarrow> foldl (\<lambda>object (k, v). put k v object) acc ms = acc @ ms"
proof (induction ms arbitrary: acc)
  case Nil
  then show ?case by simp
next
  case (Cons m ms)
  obtain k v where m: "m = (k, v)" by (cases m)
  with Cons.prems have "k \<notin> fst ` set acc" by auto
  then have "put k v acc = acc @ [(k, v)]" by (rule put_new)
  moreover have "distinct (map fst ((acc @ [(k, v)]) @ ms))"
    using Cons.prems m by simp
  ultimately show ?case
    using Cons.IH [of "acc @ [(k, v)]"] m by simp
qed

lemma properties_distinct:
  "distinct (map fst ms) \<Longrightarrow> property_order ms = ms \<Longrightarrow> properties ms = ms"
  using foldl_put_distinct [of "[]" ms] by (simp add: properties_def)

subsection \<open>Strings are parsed back\<close>

lemma hex_val_lower_hex: "hex_val (lower_hex k) = Some (k mod 16)"
proof -
  have "k mod 16 = 0 \<or> k mod 16 = 1 \<or> k mod 16 = 2 \<or> k mod 16 = 3 \<or> k mod 16 = 4 \<or>
        k mod 16 = 5 \<or> k mod 16 = 6 \<or> k mod 16 = 7 \<or> k mod 16 = 8 \<or> k mod 16 = 9 \<or>
        k mod 16 = 10 \<or> k mod 16 = 11 \<or> k mod 16 = 12 \<or> k mod 16 = 13 \<or> k mod 16 = 14 \<or>
        k mod 16 = 15"
    by presburger
  then show ?thesis
    by (auto simp: lower_hex_def hex_val_def is_digit_def digit_val_def)
qed

lemma hex_val_zero: "hex_val (CHR ''0'') = Some 0"
  by (simp add: hex_val_def is_digit_def digit_val_def)

lemma parse_chars_escape_unit: "parse_chars (escape_unit c @ s) = cons_result c (parse_chars s)"
proof (cases "c \<in> {dquote, backslash, CHR 0x08, CHR 0x0C, CHR 0x0A, CHR 0x0D, CHR 0x09}")
  case True
  then show ?thesis by (auto simp: escape_unit_def unescape_def)
next
  case False
  note plain = this
  show ?thesis
  proof (cases "(of_char c :: nat) < 32")
    case True
    let ?n = "of_char c :: nat"
    have "?n div 16 mod 16 = ?n div 16" using True by simp
    moreover have "?n div 16 * 16 + ?n mod 16 = ?n" by simp
    ultimately show ?thesis
      using plain True
      by (simp add: escape_unit_def hex_val_lower_hex hex_val_zero)
  next
    case False
    with plain show ?thesis by (simp add: escape_unit_def)
  qed
qed

lemma parse_chars_quoted:
  "parse_chars (concat (map escape_unit s) @ dquote # rest) = Some (s, rest)"
  by (induction s) (simp_all add: parse_chars_escape_unit cons_result_def)

lemma parse_chars_quote: "parse_chars (tl (quote s @ rest)) = Some (s, rest)"
  by (simp add: quote_def parse_chars_quoted)

subsection \<open>Values are parsed back\<close>

lemma newline_ws: "\<forall>c \<in> set (newline space k). is_ws c"
  by (simp add: newline_def is_ws_def)

lemma skip_ws_newline: "skip_ws (newline space k @ s) = skip_ws s"
  using newline_ws [of space k] by (simp add: skip_ws_def dropWhile_append2)

lemma skip_ws_colon: "skip_ws (tl (colon space @ s)) = skip_ws s"
  by (simp add: colon_def skip_ws_def is_ws_def)

lemma skip_ws_token: "\<not> is_ws c \<Longrightarrow> skip_ws (c # s) = c # s"
  by (simp add: skip_ws_def)

lemma parse_value_skip: "skip_ws s = skip_ws s' \<Longrightarrow> parse_value N n s = parse_value N n s'"
  by (cases n) simp_all

lemma parse_elements_skip: "skip_ws s = skip_ws s' \<Longrightarrow> parse_elements N n s = parse_elements N n s'"
  by (cases n) (simp_all add: parse_value_skip [of s s'])

lemma parse_members_skip: "skip_ws s = skip_ws s' \<Longrightarrow> parse_members N n s = parse_members N n s'"
  by (cases n) simp_all

lemma ends_number_after_value:
  "ends_number (newline space m @ CHR '']'' # rest)"
  "ends_number (newline space m @ CHR ''}'' # rest)"
  "ends_number (CHR '','' # rest)"
  by (simp_all add: ends_number_def newline_def number_char_def)

lemma starts_with_Cons: "starts_with (c # cs) (d # ds) \<longleftrightarrow> c = d \<and> starts_with cs ds"
  by (auto simp: starts_with_def)

lemma starts_with_Nil: "starts_with s []"
  by (simp add: starts_with_def)

lemma parse_value_number:
  assumes "c = CHR ''-'' \<or> is_digit c"
  shows "parse_value N (Suc n) (c # cs) = parse_number N (c # cs)"
proof -
  have "\<not> is_ws c"
    using assms by (auto simp: is_digit_def is_ws_def)
  moreover have "c \<noteq> CHR ''n''" "c \<noteq> CHR ''t''" "c \<noteq> CHR ''f''" "c \<noteq> dquote"
    "c \<noteq> CHR ''[''" "c \<noteq> CHR ''{''"
    using assms by (auto simp: is_digit_def)
  ultimately show ?thesis
    by (simp add: skip_ws_token starts_with_Cons)
qed

lemma starts_value_append: "starts_value s \<Longrightarrow> starts_value (s @ r)"
  by (cases s) (simp_all add: starts_value_def)

lemma starts_value_stringify:
  "serializable N v \<Longrightarrow> starts_value (stringify_value N space ind v)"
proof (cases v)
  case (JNum x)
  assume "serializable N v"
  with JNum obtain c cs where "number_text N x = c # cs" "c = CHR ''-'' \<or> is_digit c"
    using number_token_first [of "number_text N x"] by auto
  with JNum show ?thesis by (auto simp: starts_value_def is_ws_def is_digit_def)
qed (simp_all add: starts_value_def is_ws_def quote_def)

lemma starts_value_elements:
  "vs \<noteq> [] \<Longrightarrow> serializable_elements N vs \<Longrightarrow> starts_value (stringify_elements N space ind vs)"
  by (cases vs) (simp_all add: starts_value_stringify starts_value_append)

lemma starts_value_members: "ms \<noteq> [] \<Longrightarrow> starts_value (stringify_members N space ind ms)"
proof (cases ms)
  case (Cons m ms')
  then show ?thesis by (cases m) (simp add: starts_value_def quote_def is_ws_def)
qed simp

lemma parse_value_array:
  assumes "starts_value s"
  shows "parse_value N (Suc n) (CHR ''['' # newline space k @ s @ r) =
           (case parse_elements N n (s @ r) of None \<Rightarrow> None | Some (vs, r') \<Rightarrow> Some (JArr vs, r'))"
proof -
  obtain c cs where s: "s = c # cs" "\<not> is_ws c" "c \<noteq> CHR '']''"
    using assms by (cases s) (auto simp: starts_value_def)
  have skip: "skip_ws (newline space k @ s @ r) = c # cs @ r"
    using s by (simp add: skip_ws_newline skip_ws_token)
  have "parse_elements N n (newline space k @ s @ r) = parse_elements N n (s @ r)"
    by (rule parse_elements_skip) (simp add: skip_ws_newline)
  with skip s show ?thesis
    by (simp add: skip_ws_token is_ws_def starts_with_Cons starts_with_Nil)
qed

lemma parse_value_object:
  assumes "starts_value s"
  shows "parse_value N (Suc n) (CHR ''{'' # newline space k @ s @ r) =
           (case parse_members N n (s @ r) of None \<Rightarrow> None | Some (ms, r') \<Rightarrow> Some (JObj (properties ms), r'))"
proof -
  obtain c cs where s: "s = c # cs" "\<not> is_ws c" "c \<noteq> CHR ''}''"
    using assms by (cases s) (auto simp: starts_value_def)
  have skip: "skip_ws (newline space k @ s @ r) = c # cs @ r"
    using s by (simp add: skip_ws_newline skip_ws_token)
  have "parse_members N n (newline space k @ s @ r) = parse_members N n (s @ r)"
    by (rule parse_members_skip) (simp add: skip_ws_newline)
  with skip s show ?thesis
    by (simp add: skip_ws_token is_ws_def starts_with_Cons starts_with_Nil)
qed

lemma parse_elements_step:
  assumes "parse_value N n s = Some (v, r)"
  shows "parse_elements N (Suc n) s =
           (if starts_with (skip_ws r) '','' then cons_result v (parse_elements N n (tl (skip_ws r)))
            else if starts_with (skip_ws r) '']'' then Some ([v], tl (skip_ws r))
            else None)"
  using assms by simp

lemma parse_members_step:
  assumes "parse_value N n s = Some (v, r)"
  shows "parse_members N (Suc n) (quote k @ colon space @ s) =
           (if starts_with (skip_ws r) '','' then cons_result (k, v) (parse_members N n (tl (skip_ws r)))
            else if starts_with (skip_ws r) ''}'' then Some ([(k, v)], tl (skip_ws r))
            else None)"
proof -
  let ?body = "concat (map escape_unit k)"
  have q: "quote k @ colon space @ s = dquote # ?body @ dquote # colon space @ s"
    by (simp add: quote_def)
  have chars: "parse_chars (?body @ dquote # colon space @ s) = Some (k, colon space @ s)"
    by (rule parse_chars_quoted)
  have col: "skip_ws (colon space @ s) = CHR '':'' # tl (colon space @ s)"
    by (simp add: colon_def skip_ws_def is_ws_def)
  have "parse_value N n (tl (colon space @ s)) = parse_value N n s"
    by (rule parse_value_skip) (rule skip_ws_colon)
  with assms have v: "parse_value N n (tl (colon space @ s)) = Some (v, r)"
    by simp
  show ?thesis
    unfolding q
    by (simp add: skip_ws_token is_ws_def starts_with_Cons starts_with_Nil chars col v)
qed

lemma skip_ws_closing:
  "skip_ws (newline space m @ CHR '']'' # rest) = CHR '']'' # rest"
  "skip_ws (newline space m @ CHR ''}'' # rest) = CHR ''}'' # rest"
  by (simp_all add: skip_ws_newline skip_ws_token is_ws_def)

lemma stringify_value_not_Nil: "serializable N v \<Longrightarrow> stringify_value N space ind v \<noteq> []"
  using starts_value_stringify [of N v space ind] by (auto simp: starts_value_def)

lemma parse_stringify:
  shows "serializable N v \<Longrightarrow>
         length (stringify_value N space ind v) \<le> n \<Longrightarrow> ends_number rest \<Longrightarrow>
           parse_value N n (stringify_value N space ind v @ rest) = Some (v, rest)"
    and "serializable_elements N vs \<Longrightarrow> vs \<noteq> [] \<Longrightarrow>
         length (stringify_elements N space ind vs) < n \<Longrightarrow>
           parse_elements N n (stringify_elements N space ind vs @ newline space m @ CHR '']'' # rest)
             = Some (vs, rest)"
    and "serializable_members N ms \<Longrightarrow> ms \<noteq> [] \<Longrightarrow>
         length (stringify_members N space ind ms) < n \<Longrightarrow>
           parse_members N n (stringify_members N space ind ms @ newline space m @ CHR ''}'' # rest)
             = Some (ms, rest)"
proof (induction N space ind v and N space ind vs and N space ind ms
    arbitrary: n rest and n rest m and n rest m
    rule: stringify_value_stringify_elements_stringify_members.induct)
  case (1 N space ind)
  then obtain n' where "n = Suc n'" by (cases n) auto
  then show ?case
    by (simp add: skip_ws_token is_ws_def starts_with_Cons starts_with_Nil)
next
  case (2 N space ind b)
  then obtain n' where "n = Suc n'" by (cases n) (auto split: if_splits)
  then show ?case
    by (cases b) (simp_all add: skip_ws_token is_ws_def starts_with_Cons starts_with_Nil)
next
  case (3 N space ind x)
  let ?t = "number_text N x"
  from "3.prems"(1) have token: "is_number_token ?t" and read_back: "text_number N ?t = x"
    by simp_all
  obtain c cs where c: "?t = c # cs" "c = CHR ''-'' \<or> is_digit c"
    using number_token_first [OF token] by blast
  with "3.prems"(2) obtain n' where "n = Suc n'" by (cases n) auto
  then have "parse_value N n (?t @ rest) = parse_number N (?t @ rest)"
    using c parse_value_number [of c N n' "cs @ rest"] by simp
  also have "\<dots> = Some (JNum (text_number N ?t), rest)"
    using token "3.prems"(3) by (rule parse_number_token)
  finally show ?case by (simp add: read_back)
next
  case (4 N space ind s)
  then obtain n' where "n = Suc n'" by (cases n) (auto simp: quote_def)
  then show ?case
    by (simp add: quote_def skip_ws_token is_ws_def starts_with_Cons starts_with_Nil
        parse_chars_quoted)
next
  case (5 N space ind vs)
  show ?case
  proof (cases "vs = []")
    case True
    with "5.prems" obtain n' where "n = Suc n'" by (cases n) auto
    with True show ?thesis
      by (simp add: skip_ws_token is_ws_def starts_with_Cons starts_with_Nil)
  next
    case False
    from "5.prems"(1) have ser: "serializable_elements N vs" by simp
    from False "5.prems"(2) obtain n' where n: "n = Suc n'"
      and len: "length (stringify_elements N space (ind + space) vs) < n'"
      by (cases n) auto
    have "parse_elements N n'
            (stringify_elements N space (ind + space) vs @ newline space ind @ CHR '']'' # rest)
          = Some (vs, rest)"
      using False ser len by (intro "5.IH")
    with False n ser show ?thesis
      by (simp add: parse_value_array starts_value_elements del: parse_value.simps)
  qed
next
  case (6 N space ind ms)
  show ?case
  proof (cases "ms = []")
    case True
    with "6.prems" obtain n' where "n = Suc n'" by (cases n) auto
    with True show ?thesis
      by (simp add: skip_ws_token is_ws_def starts_with_Cons starts_with_Nil)
  next
    case False
    from "6.prems"(1) have ser: "serializable_members N ms"
      and names: "distinct (map fst ms)" "property_order ms = ms"
      by simp_all
    from False "6.prems"(2) obtain n' where n: "n = Suc n'"
      and len: "length (stringify_members N space (ind + space) ms) < n'"
      by (cases n) auto
    have "parse_members N n'
            (stringify_members N space (ind + space) ms @ newline space ind @ CHR ''}'' # rest)
          = Some (ms, rest)"
      using False ser len by (intro "6.IH")
    with False n names show ?thesis
      by (simp add: parse_value_object starts_value_members properties_distinct
          del: parse_value.simps)
  qed
next
  case (7 N space ind)
  then show ?case by simp
next
  case (8 N space ind v vs)
  from "8.prems"(1) have ser: "serializable N v" "serializable_elements N vs"
    by simp_all
  from "8.prems"(3) obtain n' where n: "n = Suc n'" by (cases n) auto
  let ?more = "if vs = [] then [] else '','' @ newline space ind @ stringify_elements N space ind vs"
  let ?r = "?more @ newline space m @ CHR '']'' # rest"
  have lenv: "length (stringify_value N space ind v) \<le> n'"
    using "8.prems"(3) n by simp
  have "ends_number ?r"
    by (simp add: ends_number_after_value)
  with ser(1) lenv have v: "parse_value N n' (stringify_value N space ind v @ ?r) = Some (v, ?r)"
    by (rule "8.IH"(1))
  show ?case
  proof (cases "vs = []")
    case True
    with v n show ?thesis
      by (simp add: parse_elements_step skip_ws_closing starts_with_Cons starts_with_Nil)
  next
    case False
    have "length (stringify_elements N space ind vs) < n'"
      using "8.prems"(3) n False stringify_value_not_Nil [OF ser(1), of space ind]
      by (cases "stringify_value N space ind v") auto
    with False ser(2) have "parse_elements N n'
        (stringify_elements N space ind vs @ newline space m @ CHR '']'' # rest) = Some (vs, rest)"
      by (intro "8.IH"(2))
    moreover have "parse_elements N n'
        (newline space ind @ stringify_elements N space ind vs @ newline space m @ CHR '']'' # rest)
        = parse_elements N n'
        (stringify_elements N space ind vs @ newline space m @ CHR '']'' # rest)"
      by (rule parse_elements_skip) (rule skip_ws_newline)
    ultimately show ?thesis
      using False v n
      by (simp add: parse_elements_step skip_ws_token is_ws_def starts_with_Cons starts_with_Nil
          cons_result_def)
  qed
next
  case (9 N space ind)
  then show ?case by simp
next
  case (10 N space ind k v ms)
  from "10.prems"(1) have ser: "serializable N v" "serializable_members N ms"
    by simp_all
  from "10.prems"(3) obtain n' where n: "n = Suc n'" by (cases n) auto
  let ?more = "if ms = [] then [] else '','' @ newline space ind @ stringify_members N space ind ms"
  let ?r = "?more @ newline space m @ CHR ''}'' # rest"
  have lenv: "length (stringify_value N space ind v) \<le> n'"
    using "10.prems"(3) n by simp
  have "ends_number ?r"
    by (simp add: ends_number_after_value)
  with ser(1) lenv have v: "parse_value N n' (stringify_value N space ind v @ ?r) = Some (v, ?r)"
    by (rule "10.IH"(1))
  note step = parse_members_step [OF v, of k space]
  show ?case
  proof (cases "ms = []")
    case True
    with step n show ?thesis
      by (simp add: skip_ws_closing starts_with_Cons starts_with_Nil)
  next
    case False
    have "length (stringify_members N space ind ms) < n'"
      using "10.prems"(3) n False by (simp add: quote_def)
    with False ser(2) have "parse_members N n'
        (stringify_members N space ind ms @ newline space m @ CHR ''}'' # rest) = Some (ms, rest)"
      by (intro "10.IH"(2))
    moreover have "parse_members N n'
        (newline space ind @ stringify_members N space ind ms @ newline space m @ CHR ''}'' # rest)
        = parse_members N n'
        (stringify_members N space ind ms @ newline space m @ CHR ''}'' # rest)"
      by (rule parse_members_skip) (rule skip_ws_newline)
    ultimately show ?thesis
      using False step n
      by (simp add: skip_ws_token is_ws_def starts_with_Cons starts_with_Nil cons_result_def)
  qed
qed

lemma JSON_parse_stringify:
  "serializable N v \<Longrightarrow> JSON_parse N (JSON_stringify N v space) = Inr v"
  using parse_stringify(1) [of N v "min space 10" 0 "length (JSON_stringify N v space)" "[]"]
  by (simp add: JSON_parse_def JSON_stringify_def ends_number_def skip_ws_def)

lemma JSON_stringify_not_Nil: "serializable N v \<Longrightarrow> JSON_stringify N v space \<noteq> []"
  by (simp add: JSON_stringify_def stringify_value_not_Nil)

lemma map_of_put: "map_of (put k v kvs) k = Some v"
  by (induction kvs) auto

section \<open>The parser has fuel enough\<close>

text \<open>
  A value that the parser reads takes at least one character, and a parse that succeeds
  with some fuel succeeds with every fuel from the number of characters it takes.  So
  \<open>JSON_parse\<close>, which gives the length of the text, reads every text that the parser
  reads with any fuel.
\<close>

lemma skip_ws_length: "length (skip_ws s) \<le> length s"
  by (simp add: skip_ws_def length_dropWhile_le)

lemma starts_with_tl: "starts_with t (c # p) \<Longrightarrow> length (tl t) < length t"
  by (cases t) (auto simp: starts_with_def)

lemma cons_result_Some:
  "cons_result x q = Some (ys, r) \<longleftrightarrow> (\<exists>xs. q = Some (xs, r) \<and> ys = x # xs)"
  by (auto simp: cons_result_def split: option.splits)

lemma parse_chars_step:
  assumes "parse_chars (c # s) = Some (x, r)"
  shows "r = s \<or> (\<exists>k xs. parse_chars (drop k s) = Some (xs, r))"
proof (cases "c = dquote")
  case True
  with assms show ?thesis by simp
next
  case quote: False
  show ?thesis
  proof (cases "c = backslash")
    case False
    with quote assms obtain xs where "parse_chars (drop 0 s) = Some (xs, r)"
      by (auto simp: cons_result_Some split: if_splits)
    then show ?thesis by blast
  next
    case True
    with quote assms obtain e s' where s: "s = e # s'"
      by (cases s) auto
    show ?thesis
    proof (cases "e = CHR ''u''")
      case False
      with True quote s assms obtain xs where "parse_chars s' = Some (xs, r)"
        by (auto simp: cons_result_Some split: option.splits)
      with s have "parse_chars (drop 1 s) = Some (xs, r)" by simp
      then show ?thesis by blast
    next
      case u: True
      with True quote s assms obtain h3 h2 h1 h0 s'' where s': "s' = h3 # h2 # h1 # h0 # s''"
        by (auto split: list.splits)
      with u True quote s assms obtain xs where "parse_chars s'' = Some (xs, r)"
        by (auto simp: cons_result_Some Let_def split: option.splits if_splits)
      with s s' have "parse_chars (drop 5 s) = Some (xs, r)" by simp
      then show ?thesis by blast
    qed
  qed
qed

lemma parse_chars_length: "parse_chars s = Some (x, r) \<Longrightarrow> length r < length s"
proof (induction "length s" arbitrary: s x rule: less_induct)
  case less
  from less.prems obtain c s' where s: "s = c # s'"
    by (cases s) auto
  with less.prems parse_chars_step [of c s' x r]
  consider "r = s'" | k xs where "parse_chars (drop k s') = Some (xs, r)"
    by blast
  then show ?case
  proof cases
    case 1
    with s show ?thesis by simp
  next
    case 2
    have "length (drop k s') < length s"
      using s by simp
    then have "length r < length (drop k s')"
      using 2 by (rule less.hyps)
    with s show ?thesis by simp
  qed
qed

lemma parse_number_length: "parse_number N s = Some (v, r) \<Longrightarrow> length r < length s"
proof -
  assume a: "parse_number N s = Some (v, r)"
  then have token: "is_number_token (takeWhile number_char s)" and r: "r = dropWhile number_char s"
    by (auto simp: parse_number_def Let_def split: if_splits)
  from token have "takeWhile number_char s \<noteq> []"
    by (auto simp: is_number_token_def Let_def starts_with_def)
  moreover have "length (takeWhile number_char s) + length (dropWhile number_char s) = length s"
    by (metis length_append takeWhile_dropWhile_id)
  ultimately show ?thesis using r by (cases "takeWhile number_char s") auto
qed


lemma parse_value_array_fuel:
  assumes "starts_with (skip_ws s) ''[''" and "\<not> starts_with (skip_ws (tl (skip_ws s))) '']''"
  shows "parse_value N (Suc k) s =
           (case parse_elements N k (tl (skip_ws s)) of
              None \<Rightarrow> None | Some (vs, r) \<Rightarrow> Some (JArr vs, r))"
proof -
  from assms(1) obtain t where "skip_ws s = CHR ''['' # t"
    by (cases "skip_ws s") (auto simp: starts_with_def)
  with assms(2) show ?thesis
    by (simp add: starts_with_Cons starts_with_Nil)
qed

lemma parse_value_object_fuel:
  assumes "starts_with (skip_ws s) ''{''" and "\<not> starts_with (skip_ws (tl (skip_ws s))) ''}''"
  shows "parse_value N (Suc k) s =
           (case parse_members N k (tl (skip_ws s)) of
              None \<Rightarrow> None | Some (ms, r) \<Rightarrow> Some (JObj (properties ms), r))"
proof -
  from assms(1) obtain t where "skip_ws s = CHR ''{'' # t"
    by (cases "skip_ws s") (auto simp: starts_with_def)
  with assms(2) show ?thesis
    by (simp add: starts_with_Cons starts_with_Nil)
qed

lemma parse_value_scalar_fuel:
  assumes "\<not> (starts_with (skip_ws s) ''['' \<and> \<not> starts_with (skip_ws (tl (skip_ws s))) '']'')"
    and "\<not> (starts_with (skip_ws s) ''{'' \<and> \<not> starts_with (skip_ws (tl (skip_ws s))) ''}'')"
  shows "parse_value N (Suc k) s = parse_value N (Suc 0) s"
  using assms by (auto simp: Let_def)

lemma drop_prefix_length: "starts_with t p \<Longrightarrow> p \<noteq> [] \<Longrightarrow> length (drop (length p) t) < length t"
  by (cases t; cases p) (auto simp: starts_with_def)

lemma parse_value_scalar_length:
  assumes "\<not> (starts_with (skip_ws s) ''['' \<and> \<not> starts_with (skip_ws (tl (skip_ws s))) '']'')"
    and "\<not> (starts_with (skip_ws s) ''{'' \<and> \<not> starts_with (skip_ws (tl (skip_ws s))) ''}'')"
    and "parse_value N (Suc 0) s = Some (v, r)"
  shows "length r < length s"
proof -
  let ?t = "skip_ws s"
  have t: "length ?t \<le> length s" by (rule skip_ws_length)
  have inner: "length (skip_ws (tl ?t)) \<le> length ?t"
    using skip_ws_length [of "tl ?t"] by simp
  consider (null) "starts_with ?t ''null''" "r = drop 4 ?t"
    | (true) "starts_with ?t ''true''" "r = drop 4 ?t"
    | (false) "starts_with ?t ''false''" "r = drop 5 ?t"
    | (string) x where "starts_with ?t [dquote]" "parse_chars (tl ?t) = Some (x, r)"
    | (array) "starts_with ?t ''[''" "starts_with (skip_ws (tl ?t)) '']''" "r = tl (skip_ws (tl ?t))"
    | (object) "starts_with ?t ''{''" "starts_with (skip_ws (tl ?t)) ''}''" "r = tl (skip_ws (tl ?t))"
    | (number) "parse_number N ?t = Some (v, r)"
    using assms by (auto simp: Let_def split: if_splits option.splits)
  then have "length r < length ?t"
  proof cases
    case null
    then show ?thesis using drop_prefix_length [of ?t "''null''"] by simp
  next
    case true
    then show ?thesis using drop_prefix_length [of ?t "''true''"] by simp
  next
    case false
    then show ?thesis using drop_prefix_length [of ?t "''false''"] by simp
  next
    case string
    then show ?thesis
      using parse_chars_length [of "tl ?t" x r] starts_with_tl [of ?t dquote "[]"] by simp
  next
    case array
    then show ?thesis
      using starts_with_tl [of "skip_ws (tl ?t)" "CHR '']''" "[]"] inner by simp
  next
    case object
    then show ?thesis
      using starts_with_tl [of "skip_ws (tl ?t)" "CHR ''}''" "[]"] inner by simp
  next
    case number
    then show ?thesis by (rule parse_number_length)
  qed
  with t show ?thesis by simp
qed

lemma parse_elements_Some:
  "parse_elements N (Suc n) s = Some (vs, r) \<longleftrightarrow>
     (\<exists>v r1. parse_value N n s = Some (v, r1) \<and>
        (if starts_with (skip_ws r1) '',''
         then \<exists>vs'. parse_elements N n (tl (skip_ws r1)) = Some (vs', r) \<and> vs = v # vs'
         else starts_with (skip_ws r1) '']'' \<and> vs = [v] \<and> r = tl (skip_ws r1)))"
  by (auto simp: Let_def cons_result_Some split: option.splits)

lemma parse_members_Some:
  "parse_members N (Suc n) s = Some (ms, r) \<longleftrightarrow>
     (\<exists>k r0 v r1. starts_with (skip_ws s) [dquote] \<and>
        parse_chars (tl (skip_ws s)) = Some (k, r0) \<and> starts_with (skip_ws r0) '':'' \<and>
        parse_value N n (tl (skip_ws r0)) = Some (v, r1) \<and>
        (if starts_with (skip_ws r1) '',''
         then \<exists>ms'. parse_members N n (tl (skip_ws r1)) = Some (ms', r) \<and> ms = (k, v) # ms'
         else starts_with (skip_ws r1) ''}'' \<and> ms = [(k, v)] \<and> r = tl (skip_ws r1)))"
  by (auto simp: Let_def cons_result_Some split: option.splits)


lemma parse_lengths:
  "(parse_value N n s = Some (v, r) \<longrightarrow> length r < length s) \<and>
   (parse_elements N n s = Some (vs, r) \<longrightarrow> length r < length s) \<and>
   (parse_members N n s = Some (ms, r) \<longrightarrow> length r < length s)"
proof (induction n arbitrary: s v vs ms r)
  case 0
  show ?case by simp
next
  case (Suc n)
  have V: "length r < length s" if "parse_value N n s = Some (v, r)" for s v r
    using Suc.IH that by blast
  have E: "length r < length s" if "parse_elements N n s = Some (vs, r)" for s vs r
    using Suc.IH that by blast
  have M: "length r < length s" if "parse_members N n s = Some (ms, r)" for s ms r
    using Suc.IH that by blast
  have ws: "length (tl (skip_ws x)) \<le> length x" for x
    using skip_ws_length [of x] by simp
  have "length r < length s" if a: "parse_value N (Suc n) s = Some (v, r)"
  proof -
    consider (array) "starts_with (skip_ws s) ''[''" "\<not> starts_with (skip_ws (tl (skip_ws s))) '']''"
      | (object) "starts_with (skip_ws s) ''{''" "\<not> starts_with (skip_ws (tl (skip_ws s))) ''}''"
      | (scalar) "\<not> (starts_with (skip_ws s) ''['' \<and> \<not> starts_with (skip_ws (tl (skip_ws s))) '']'')"
          "\<not> (starts_with (skip_ws s) ''{'' \<and> \<not> starts_with (skip_ws (tl (skip_ws s))) ''}'')"
      by blast
    then show ?thesis
    proof cases
      case array
      with a obtain xs where "parse_elements N n (tl (skip_ws s)) = Some (xs, r)"
        by (auto simp: parse_value_array_fuel simp del: parse_value.simps split: option.splits)
      then have "length r < length (tl (skip_ws s))" by (rule E)
      with ws [of s] show ?thesis by simp
    next
      case object
      with a obtain xs where "parse_members N n (tl (skip_ws s)) = Some (xs, r)"
        by (auto simp: parse_value_object_fuel simp del: parse_value.simps split: option.splits)
      then have "length r < length (tl (skip_ws s))" by (rule M)
      with ws [of s] show ?thesis by simp
    next
      case scalar
      then have "parse_value N (Suc 0) s = Some (v, r)"
        using a parse_value_scalar_fuel [of s N n] by simp
      with scalar show ?thesis by (rule parse_value_scalar_length)
    qed
  qed
  moreover have "length r < length s" if a: "parse_elements N (Suc n) s = Some (vs, r)"
  proof -
    from a obtain x r1 where x: "parse_value N n s = Some (x, r1)"
      and rest: "if starts_with (skip_ws r1) '',''
         then \<exists>vs'. parse_elements N n (tl (skip_ws r1)) = Some (vs', r) \<and> vs = x # vs'
         else starts_with (skip_ws r1) '']'' \<and> vs = [x] \<and> r = tl (skip_ws r1)"
      unfolding parse_elements_Some by blast
    from x have r1: "length r1 < length s" by (rule V)
    show ?thesis
    proof (cases "starts_with (skip_ws r1) '',''")
      case True
      with rest obtain vs' where "parse_elements N n (tl (skip_ws r1)) = Some (vs', r)" by auto
      then have "length r < length (tl (skip_ws r1))" by (rule E)
      with ws [of r1] r1 show ?thesis by simp
    next
      case False
      with rest have "r = tl (skip_ws r1)" by simp
      with ws [of r1] r1 show ?thesis by simp
    qed
  qed
  moreover have "length r < length s" if a: "parse_members N (Suc n) s = Some (ms, r)"
  proof -
    from a obtain k r0 x r1 where key: "parse_chars (tl (skip_ws s)) = Some (k, r0)"
      and x: "parse_value N n (tl (skip_ws r0)) = Some (x, r1)"
      and rest: "if starts_with (skip_ws r1) '',''
         then \<exists>ms'. parse_members N n (tl (skip_ws r1)) = Some (ms', r) \<and> ms = (k, x) # ms'
         else starts_with (skip_ws r1) ''}'' \<and> ms = [(k, x)] \<and> r = tl (skip_ws r1)"
      unfolding parse_members_Some by blast
    from key have "length r0 < length (tl (skip_ws s))" by (rule parse_chars_length)
    with ws [of s] have r0: "length r0 < length s" by simp
    from x have "length r1 < length (tl (skip_ws r0))" by (rule V)
    with ws [of r0] r0 have r1: "length r1 < length s" by simp
    show ?thesis
    proof (cases "starts_with (skip_ws r1) '',''")
      case True
      with rest obtain ms' where "parse_members N n (tl (skip_ws r1)) = Some (ms', r)" by auto
      then have "length r < length (tl (skip_ws r1))" by (rule M)
      with ws [of r1] r1 show ?thesis by simp
    next
      case False
      with rest have "r = tl (skip_ws r1)" by simp
      with ws [of r1] r1 show ?thesis by simp
    qed
  qed
  ultimately show ?case by blast
qed


lemma skip_ws_tl_length: "starts_with (skip_ws x) (c # p) \<Longrightarrow> length (tl (skip_ws x)) < length x"
  using starts_with_tl [of "skip_ws x" c p] skip_ws_length [of x] by simp

lemma parse_fuel:
  "(parse_value N n s = Some (v, r) \<longrightarrow>
      (\<forall>m. length s - length r \<le> m \<longrightarrow> parse_value N m s = Some (v, r))) \<and>
   (parse_elements N n s = Some (vs, r) \<longrightarrow>
      (\<forall>m. length s - length r \<le> m \<longrightarrow> parse_elements N m s = Some (vs, r))) \<and>
   (parse_members N n s = Some (ms, r) \<longrightarrow>
      (\<forall>m. length s - length r \<le> m \<longrightarrow> parse_members N m s = Some (ms, r)))"
proof (induction n arbitrary: s v vs ms r)
  case 0
  show ?case by simp
next
  case (Suc n)
  have V: "parse_value N m s = Some (v, r)"
    if "parse_value N n s = Some (v, r)" "length s - length r \<le> m" for s v r m
    using Suc.IH that by blast
  have E: "parse_elements N m s = Some (vs, r)"
    if "parse_elements N n s = Some (vs, r)" "length s - length r \<le> m" for s vs r m
    using Suc.IH that by blast
  have M: "parse_members N m s = Some (ms, r)"
    if "parse_members N n s = Some (ms, r)" "length s - length r \<le> m" for s ms r m
    using Suc.IH that by blast
  have "parse_value N m s = Some (v, r)"
    if a: "parse_value N (Suc n) s = Some (v, r)" and m: "length s - length r \<le> m" for m
  proof -
    from a have "length r < length s"
      using parse_lengths by blast
    with m obtain m' where m': "m = Suc m'" and bound: "length s - length r \<le> Suc m'"
      by (cases m) auto
    consider (array) "starts_with (skip_ws s) ''[''" "\<not> starts_with (skip_ws (tl (skip_ws s))) '']''"
      | (object) "starts_with (skip_ws s) ''{''" "\<not> starts_with (skip_ws (tl (skip_ws s))) ''}''"
      | (scalar) "\<not> (starts_with (skip_ws s) ''['' \<and> \<not> starts_with (skip_ws (tl (skip_ws s))) '']'')"
          "\<not> (starts_with (skip_ws s) ''{'' \<and> \<not> starts_with (skip_ws (tl (skip_ws s))) ''}'')"
      by blast
    then show ?thesis
    proof cases
      case array
      with a obtain xs where xs: "parse_elements N n (tl (skip_ws s)) = Some (xs, r)"
        and v: "v = JArr xs"
        by (auto simp: parse_value_array_fuel simp del: parse_value.simps split: option.splits)
      have "length (tl (skip_ws s)) < length s"
        using array(1) by (rule skip_ws_tl_length)
      with bound have "length (tl (skip_ws s)) - length r \<le> m'" by simp
      with xs have "parse_elements N m' (tl (skip_ws s)) = Some (xs, r)" by (rule E)
      with array v m' show ?thesis
        by (simp add: parse_value_array_fuel del: parse_value.simps)
    next
      case object
      with a obtain xs where xs: "parse_members N n (tl (skip_ws s)) = Some (xs, r)"
        and v: "v = JObj (properties xs)"
        by (auto simp: parse_value_object_fuel simp del: parse_value.simps split: option.splits)
      have "length (tl (skip_ws s)) < length s"
        using object(1) by (rule skip_ws_tl_length)
      with bound have "length (tl (skip_ws s)) - length r \<le> m'" by simp
      with xs have "parse_members N m' (tl (skip_ws s)) = Some (xs, r)" by (rule M)
      with object v m' show ?thesis
        by (simp add: parse_value_object_fuel del: parse_value.simps)
    next
      case scalar
      then have "parse_value N (Suc m') s = parse_value N (Suc n) s"
        using parse_value_scalar_fuel [of s N n] parse_value_scalar_fuel [of s N m'] by simp
      with a m' show ?thesis by simp
    qed
  qed
  moreover have "parse_elements N m s = Some (vs, r)"
    if a: "parse_elements N (Suc n) s = Some (vs, r)" and m: "length s - length r \<le> m" for m
  proof -
    from a have "length r < length s"
      using parse_lengths by blast
    with m obtain m' where m': "m = Suc m'" and bound: "length s - length r \<le> Suc m'"
      by (cases m) auto
    from a obtain x r1 where x: "parse_value N n s = Some (x, r1)"
      and rest: "if starts_with (skip_ws r1) '',''
         then \<exists>vs'. parse_elements N n (tl (skip_ws r1)) = Some (vs', r) \<and> vs = x # vs'
         else starts_with (skip_ws r1) '']'' \<and> vs = [x] \<and> r = tl (skip_ws r1)"
      unfolding parse_elements_Some by blast
    from x have r1: "length r1 < length s"
      using parse_lengths by blast
    show ?thesis
    proof (cases "starts_with (skip_ws r1) '',''")
      case True
      with rest obtain vs' where more: "parse_elements N n (tl (skip_ws r1)) = Some (vs', r)"
        and vs: "vs = x # vs'" by auto
      from more have r: "length r < length (tl (skip_ws r1))"
        using parse_lengths by blast
      have sep: "length (tl (skip_ws r1)) < length r1"
        using True by (rule skip_ws_tl_length)
      from r sep r1 bound have "length s - length r1 \<le> m'" by simp
      with x have "parse_value N m' s = Some (x, r1)" by (rule V)
      moreover from r sep r1 bound have "length (tl (skip_ws r1)) - length r \<le> m'" by simp
      with more have "parse_elements N m' (tl (skip_ws r1)) = Some (vs', r)" by (rule E)
      ultimately show ?thesis
        unfolding m' parse_elements_Some using True vs by auto
    next
      case False
      with rest have close: "starts_with (skip_ws r1) '']''" and vs: "vs = [x]"
        and r: "r = tl (skip_ws r1)" by simp_all
      have "length (tl (skip_ws r1)) < length r1"
        using close by (rule skip_ws_tl_length)
      with r r1 bound have "length s - length r1 \<le> m'" by simp
      with x have "parse_value N m' s = Some (x, r1)" by (rule V)
      then show ?thesis
        unfolding m' parse_elements_Some using False close vs r by auto
    qed
  qed
  moreover have "parse_members N m s = Some (ms, r)"
    if a: "parse_members N (Suc n) s = Some (ms, r)" and m: "length s - length r \<le> m" for m
  proof -
    from a have "length r < length s"
      using parse_lengths by blast
    with m obtain m' where m': "m = Suc m'" and bound: "length s - length r \<le> Suc m'"
      by (cases m) auto
    from a obtain k r0 x r1 where quote: "starts_with (skip_ws s) [dquote]"
      and key: "parse_chars (tl (skip_ws s)) = Some (k, r0)"
      and colon: "starts_with (skip_ws r0) '':''"
      and x: "parse_value N n (tl (skip_ws r0)) = Some (x, r1)"
      and rest: "if starts_with (skip_ws r1) '',''
         then \<exists>ms'. parse_members N n (tl (skip_ws r1)) = Some (ms', r) \<and> ms = (k, x) # ms'
         else starts_with (skip_ws r1) ''}'' \<and> ms = [(k, x)] \<and> r = tl (skip_ws r1)"
      unfolding parse_members_Some by blast
    from key have "length r0 < length (tl (skip_ws s))" by (rule parse_chars_length)
    with skip_ws_tl_length [OF quote] have r0: "length r0 < length s" by simp
    have value_text: "length (tl (skip_ws r0)) < length r0"
      using colon by (rule skip_ws_tl_length)
    from x have r1: "length r1 < length (tl (skip_ws r0))"
      using parse_lengths by blast
    show ?thesis
    proof (cases "starts_with (skip_ws r1) '',''")
      case True
      with rest obtain ms' where more: "parse_members N n (tl (skip_ws r1)) = Some (ms', r)"
        and ms: "ms = (k, x) # ms'" by auto
      from more have r: "length r < length (tl (skip_ws r1))"
        using parse_lengths by blast
      have sep: "length (tl (skip_ws r1)) < length r1"
        using True by (rule skip_ws_tl_length)
      from r sep r1 value_text r0 bound have "length (tl (skip_ws r0)) - length r1 \<le> m'" by simp
      with x have "parse_value N m' (tl (skip_ws r0)) = Some (x, r1)" by (rule V)
      moreover from r sep r1 value_text r0 bound have "length (tl (skip_ws r1)) - length r \<le> m'"
        by simp
      with more have "parse_members N m' (tl (skip_ws r1)) = Some (ms', r)" by (rule M)
      ultimately show ?thesis
        unfolding m' parse_members_Some using True ms quote key colon by auto
    next
      case False
      with rest have close: "starts_with (skip_ws r1) ''}''" and ms: "ms = [(k, x)]"
        and r: "r = tl (skip_ws r1)" by simp_all
      have "length (tl (skip_ws r1)) < length r1"
        using close by (rule skip_ws_tl_length)
      with r r1 value_text r0 bound have "length (tl (skip_ws r0)) - length r1 \<le> m'" by simp
      with x have "parse_value N m' (tl (skip_ws r0)) = Some (x, r1)" by (rule V)
      then show ?thesis
        unfolding m' parse_members_Some using False close ms r quote key colon by auto
    qed
  qed
  ultimately show ?case by blast
qed

lemma parse_value_fuel:
  assumes "parse_value N n text = Some (v, r)"
  shows "parse_value N (length text) text = Some (v, r)"
  using assms parse_fuel [of N n "text" v r] by simp

lemma JSON_parse_fuel:
  "JSON_parse N text = Inr v \<longleftrightarrow> (\<exists>n r. parse_value N n text = Some (v, r) \<and> skip_ws r = [])"
proof
  assume "JSON_parse N text = Inr v"
  then show "\<exists>n r. parse_value N n text = Some (v, r) \<and> skip_ws r = []"
    by (auto simp: JSON_parse_def split: option.splits if_splits) blast
next
  assume "\<exists>n r. parse_value N n text = Some (v, r) \<and> skip_ws r = []"
  then obtain n r where "parse_value N n text = Some (v, r)" and "skip_ws r = []"
    by blast
  then show "JSON_parse N text = Inr v"
    using parse_value_fuel [of N n "text" v r] by (simp add: JSON_parse_def)
qed

section \<open>Documents in a data directory\<close>

text \<open>
  What \<open>get\<close> and \<open>set\<close> do for a valid key when the data directory is given by the
  option or by the current data path and no read fails: a missing file is read as the
  empty object, a file that holds the text of a document is read as that document, and
  \<open>set\<close> writes the text of the document.  Here a document is one that
  \<open>JSON.stringify\<close> writes and \<open>JSON.parse\<close> reads back (\<open>serializable\<close>).
\<close>

lemma get_missing_file_in_directory:
  assumes "key \<noteq> []" and "trim key \<noteq> []"
    and "js_or (dataPath options) (currentDataPath w) = Some dir" and "dir \<noteq> []"
    and "read_faults w = []"
    and "map_of (files w) (canon (join dir (escapedFileName key))) = None"
  shows "fst (get N key options w) = Inr (JObj [])"
proof -
  let ?p = "join dir (escapedFileName key)"
  have resolved_name: "getFileName key \<lparr>dataPath = dataPath options\<rparr> w = (Inr ?p, w)"
    using assms(1-4) by (simp add: getFileName_resolved)
  obtain w1 where mk: "createDir (dirname ?p) w = (Inr (), w1)"
    and same: "files w1 = files w" "read_faults w1 = read_faults w"
    by (simp add: createDir_def)
  have "readFile N ?p 0 w1 = (Inr ''{}'', w1\<lparr>read_calls := Suc (read_calls w1)\<rparr>)"
    using assms(5,6) same by (subst readFile_unfold) (simp add: readTextFile_def)
  with resolved_name mk show ?thesis
    by (simp add: get_def await_def JSON_parse_empty_object resolved_def)
qed

lemma get_stored_file_in_directory:
  assumes "key \<noteq> []" and "trim key \<noteq> []"
    and "js_or (dataPath options) (currentDataPath w) = Some dir" and "dir \<noteq> []"
    and "read_faults w = []"
    and "map_of (files w) (canon (join dir (escapedFileName key))) = Some (JSON_stringify N v space)"
    and "serializable N v"
  shows "fst (get N key options w) = Inr v"
proof -
  let ?p = "join dir (escapedFileName key)"
  have resolved_name: "getFileName key \<lparr>dataPath = dataPath options\<rparr> w = (Inr ?p, w)"
    using assms(1-4) by (simp add: getFileName_resolved)
  obtain w1 where mk: "createDir (dirname ?p) w = (Inr (), w1)"
    and same: "files w1 = files w" "read_faults w1 = read_faults w"
    by (simp add: createDir_def)
  have "readFile N ?p 0 w1 =
          (Inr (JSON_stringify N v space), w1\<lparr>read_calls := Suc (read_calls w1)\<rparr>)"
    using assms(5,6) same by (subst readFile_unfold) (simp add: readTextFile_def)
  with resolved_name mk assms(7) show ?thesis
    by (simp add: get_def await_def JSON_parse_stringify resolved_def)
qed

lemma set_in_directory:
  assumes "key \<noteq> []" and "trim key \<noteq> []"
    and "js_or (dataPath options) (currentDataPath w) = Some dir" and "dir \<noteq> []"
    and "serializable N v"
  shows "\<exists>w'. set_storage N key (Some v) options w = (Inr (), w') \<and>
           currentDataPath w' = currentDataPath w \<and> read_faults w' = read_faults w \<and>
           map_of (files w') (canon (join dir (escapedFileName key))) =
             Some (JSON_stringify N v (if prettyPrinting options = Some True then 2 else 0))"
proof -
  let ?p = "join dir (escapedFileName key)"
  let ?data = "JSON_stringify N v (if prettyPrinting options = Some True then 2 else 0)"
  have name: "getFileName key \<lparr>dataPath = dataPath options\<rparr> w = (Inr ?p, w)"
    using assms(1-4) by (simp add: getFileName_resolved)
  define w1 where "w1 = snd (createDir (dirname ?p) w)"
  have mk1: "createDir (dirname ?p) w = (Inr (), w1)"
    by (simp add: w1_def createDir_def)
  have parent: "canon (dirname ?p) \<in> set (dirs w1)"
    by (auto simp: w1_def createDir_def ancestors_def)
  define w2 where "w2 = w1\<lparr>files := put (canon ?p) ?data (files w1)\<rparr>"
  have wr: "writeFile ?p ?data w1 = (Inr (), w2)"
    using parent by (simp add: writeFile_def w2_def)
  have stored: "set_storage N key (Some v) options w = (Inr (), w2)"
    using name mk1 wr assms(5)
    by (simp add: set_storage_def await_def JSON_stringify_not_Nil)
  have "currentDataPath w2 = currentDataPath w" "read_faults w2 = read_faults w"
    "map_of (files w2) (canon ?p) = Some ?data"
    by (simp_all add: w2_def w1_def createDir_def map_of_put)
  with stored show ?thesis by simp
qed

lemma set_then_get_in_directory:
  assumes "key \<noteq> []" and "trim key \<noteq> []"
    and "js_or (dataPath options) (currentDataPath w) = Some dir" and "dir \<noteq> []"
    and "read_faults w = []"
    and "serializable N v"
  shows "fst (await (set_storage N key (Some v) options)
                (\<lambda>_. get N key \<lparr>dataPath = dataPath options\<rparr>) w) = Inr v"
proof -
  obtain w' where stored: "set_storage N key (Some v) options w = (Inr (), w')"
    and w': "currentDataPath w' = currentDataPath w" "read_faults w' = read_faults w"
      "map_of (files w') (canon (join dir (escapedFileName key))) =
         Some (JSON_stringify N v (if prettyPrinting options = Some True then 2 else 0))"
    using set_in_directory [OF assms(1-4,6)] by blast
  have "fst (get N key \<lparr>dataPath = dataPath options\<rparr> w') = Inr v"
    using assms(1,2) _ assms(4) _ w'(3) assms(6)
    by (rule get_stored_file_in_directory) (simp_all add: w' assms(3,5))
  with stored show ?thesis
    by (simp add: await_def)
qed

text \<open>The documents of the examples.\<close>

lemma serializable_examples:
  "serializable N (JObj [(''theme'', JStr ''dark'')])"
  "serializable N (JObj [(''size'', JStr ''large'')])"
  by (simp_all add: property_order_def is_array_index_def is_digit_def)

lemma getMany_two:
  assumes "fst (get N a options w) = Inr va"
    and "fst (get N b options (snd (get N a options w))) = Inr vb"
  shows "fst (getMany N [a, b] options w) = Inr [(a, va)]"
proof -
  obtain w1 where a: "get N a options w = (Inr va, w1)"
    using assms(1) by (cases "get N a options w") auto
  obtain w2 where b: "get N b options w1 = (Inr vb, w2)"
    using assms(2) a by (cases "get N b options w1") auto
  show ?thesis
    by (simp add: getMany_def reducer_def a b)
qed

section \<open>The claims\<close>

text \<open>
  C3.  \<open>getDataPath\<close> is to return the current override when there is one and the
  platform default (\<open>dataDir\<close> joined with \<open>storage\<close>) otherwise, so that it never returns
  an absent path.  The function does not do that: in every world it is resolved with
  \<open>currentDataPath\<close> as it stands, and after \<open>setDataPath\<close> has cleared the override it is
  resolved with \<open>undefined\<close>, although the default is a path.
\<close>

theorem getDataPath_never_default:
  "fst (getDataPath w) = Inr (currentDataPath w) \<and>
   fst (getDataPath (snd (setDataPath None w))) = Inr None \<and>
   fst (getDefaultDataPath (snd (setDataPath None fresh_world))) = Inr ''/home/user/.local/share/storage''"
  by (simp add: getDataPath_eq setDataPath_def getDefaultDataPath_def resolved_def
      fresh_world_def join_def is_sep_def)

text \<open>
  C2.  \<open>get\<close> of a valid key whose file does not exist is to return the empty object
  and no error.  With a data directory given by the option or by the current data path
  it does (lemma \<open>get_missing_file_in_directory\<close>), as \<open>get('foo', {dataPath: '/data'})\<close>
  on a machine where nothing has been stored.  But \<open>get('foo')\<close>, with no option and no
  data path set, is rejected with \<open>You must explicitly set a data path\<close>, and so is \<open>get\<close>
  of every other valid key, whatever the files are: \<open>getDataPath\<close> is resolved with
  \<open>undefined\<close> where the default directory is meant (C3).
\<close>

theorem get_without_data_path_rejected:
  "fst (get N key \<lparr>dataPath = None\<rparr> (w\<lparr>currentDataPath := None\<rparr>)) =
     Inl (if key = [] then Missing_key else if trim key = [] then Invalid_key else No_data_path) \<and>
   fst (get N ''foo'' \<lparr>dataPath = None\<rparr> fresh_world) = Inl No_data_path \<and>
   fst (getDefaultDataPath fresh_world) = Inr ''/home/user/.local/share/storage'' \<and>
   fst (get N ''foo'' in_data fresh_world) = Inr (JObj [])"
proof (intro conjI)
  show general: "fst (get N key \<lparr>dataPath = None\<rparr> (w\<lparr>currentDataPath := None\<rparr>)) =
     Inl (if key = [] then Missing_key else if trim key = [] then Invalid_key else No_data_path)"
    for key w
    by (simp add: get_def getFileName_def await_def rejected_def dataPath_or_current_eq
        js_or_def truthy_def)
  have foo: "trim ''foo'' \<noteq> []"
    by code_simp
  have "fresh_world\<lparr>currentDataPath := None\<rparr> = fresh_world"
    by (simp add: fresh_world_def)
  with general [of "''foo''" fresh_world] foo
  show "fst (get N ''foo'' \<lparr>dataPath = None\<rparr> fresh_world) = Inl No_data_path"
    by simp
  show "fst (getDefaultDataPath fresh_world) = Inr ''/home/user/.local/share/storage''"
    by code_simp
  have "js_or (dataPath in_data) (currentDataPath fresh_world) = Some ''/data''"
    and "map_of (files fresh_world) (canon (join ''/data'' (escapedFileName ''foo''))) = None"
    and "read_faults fresh_world = []"
    by code_simp+
  with foo show "fst (get N ''foo'' in_data fresh_world) = Inr (JObj [])"
    by (intro get_missing_file_in_directory) simp_all
qed

text \<open>
  C4.  \<open>has\<close> is to return \<open>false\<close> when the file of the key does not exist.  The
  function never returns \<open>false\<close>: \<open>readFile\<close> turns the error \<open>ENOENT\<close> into the text
  \<open>{}\<close>, so the \<open>catch\<close> of \<open>has\<close> never sees it.  On a machine where nothing has been
  stored, \<open>has('foo')\<close> is \<open>true\<close>.  The rest of the claim holds there: \<open>has\<close> is
  \<open>true\<close> after \<open>set\<close>, and another error of the read is passed on.
\<close>

theorem has_never_false:
  "fst (has N key options w) \<noteq> Inr False \<and>
   fst (has N ''foo'' in_data fresh_world) = Inr True \<and>
   fst (await (set_storage N ''foo'' (Some (JObj [])) write_in_data)
          (\<lambda>_. has N ''foo'' in_data) fresh_world) = Inr True \<and>
   fst (has N ''foo'' in_data (fresh_world\<lparr>read_faults := [EIO ''EBUSY'']\<rparr>)) = Inl (EIO ''EBUSY'')"
proof (intro conjI)
  have "fst (try_catch (await (readFile N f 0) (\<lambda>_. resolved True))
               (\<lambda>e. if e = ENOENT then resolved False else rejected e) w') \<noteq> Inr False" for f w'
    using readFile_not_ENOENT [of N f 0 w']
    by (cases "readFile N f 0 w'") (auto simp: promise_defs split: sum.splits)
  then show "fst (has N key options w) \<noteq> Inr False"
    by (auto simp: has_def await_def split: prod.splits sum.splits)
  show "fst (has N ''foo'' in_data fresh_world) = Inr True"
    by code_simp
  show "fst (await (set_storage N ''foo'' (Some (JObj [])) write_in_data)
          (\<lambda>_. has N ''foo'' in_data) fresh_world) = Inr True"
    by code_simp
  show "fst (has N ''foo'' in_data (fresh_world\<lparr>read_faults := [EIO ''EBUSY'']\<rparr>)) = Inl (EIO ''EBUSY'')"
    by code_simp
qed

text \<open>
  C5.  \<open>remove\<close> is not to raise an error when the key has no file.  The function
  passes the error of \<open>removeFile\<close> on: removing a key that was never stored is rejected
  with \<open>ENOENT\<close>, and so is the second of two removals of a stored key, the first of
  which succeeds.
\<close>

theorem remove_missing_key_rejected:
  "fst (remove ''foo'' in_data fresh_world) = Inl ENOENT \<and>
   fst (await (set_storage N ''foo'' (Some (JObj [])) write_in_data)
          (\<lambda>_. remove ''foo'' in_data) fresh_world) = Inr () \<and>
   fst (await (set_storage N ''foo'' (Some (JObj [])) write_in_data)
          (\<lambda>_. await (remove ''foo'' in_data) (\<lambda>_. remove ''foo'' in_data)) fresh_world) = Inl ENOENT"
  by code_simp

text \<open>
  C6.  \<open>keys\<close> is to return the names of the entries with the extension \<open>.json\<close> only.
  The function returns the name of every entry of the directory: of the document
  \<open>a.json\<close>, of the text file \<open>notes.txt\<close> and of the subdirectory \<open>cache\<close>.  In a
  directory that holds documents only, as after \<open>set('a', {})\<close> and \<open>set('b', {})\<close>, the
  result is as claimed.
\<close>

theorem keys_returns_every_entry:
  "fst (keys in_data mixed_world) = Inr [''a.json'', ''notes.txt'', ''cache''] \<and>
   fst (await (set_storage N ''a'' (Some (JObj [])) write_in_data)
          (\<lambda>_. await (set_storage N ''b'' (Some (JObj [])) write_in_data)
          (\<lambda>_. keys in_data)) fresh_world) = Inr [''a.json'', ''b.json'']"
  by code_simp

text \<open>
  C7.  \<open>clear\<close> is to delete every \<open>.json\<close> file of the data directory, so that \<open>keys\<close>
  is empty and \<open>get\<close> returns \<open>{}\<close> afterwards.  The function asks \<open>removeDir\<close> to remove
  the one path \<open>*.json\<close> of the directory: after a document has been stored under the key
  \<open>a\<close>, \<open>clear\<close> is rejected with \<open>ENOENT\<close>, the file is still listed by \<open>keys\<close> and
  \<open>get\<close> still returns the document.  In no world does \<open>clear\<close> delete a file.
\<close>

theorem clear_deletes_nothing:
  "files (snd (clear options w)) = files w \<and>
   fst (await (set_storage (N :: 'n numbers) ''a'' (Some (JObj [(''theme'', JStr ''dark'')])) write_in_data)
          (\<lambda>_. clear in_data) fresh_world) = Inl ENOENT \<and>
   fst (await (set_storage N ''a'' (Some (JObj [(''theme'', JStr ''dark'')])) write_in_data)
          (\<lambda>_. await (try_catch (clear in_data) (\<lambda>_. resolved ()))
          (\<lambda>_. keys in_data)) fresh_world) = Inr [''a.json''] \<and>
   fst (await (set_storage N ''a'' (Some (JObj [(''theme'', JStr ''dark'')])) write_in_data)
          (\<lambda>_. await (try_catch (clear in_data) (\<lambda>_. resolved ()))
          (\<lambda>_. get N ''a'' in_data)) fresh_world) = Inr (JObj [(''theme'', JStr ''dark'')])"
proof (intro conjI)
  let ?doc = "JObj [(''theme'', JStr ''dark'')] :: 'n json"
  define stored where
    "stored = snd (set_storage N ''a'' (Some ?doc) write_in_data fresh_world)"
  show "files (snd (clear options w)) = files w"
    by (simp add: clear_def await_def dataPath_or_current_eq removeDir_def rejected_def
        split: option.splits)
  show "fst (await (set_storage N ''a'' (Some ?doc) write_in_data)
          (\<lambda>_. clear in_data) fresh_world) = Inl ENOENT"
    by code_simp
  show "fst (await (set_storage N ''a'' (Some ?doc) write_in_data)
          (\<lambda>_. await (try_catch (clear in_data) (\<lambda>_. resolved ()))
          (\<lambda>_. keys in_data)) fresh_world) = Inr [''a.json'']"
    by code_simp
  have written: "set_storage N ''a'' (Some ?doc) write_in_data fresh_world = (Inr (), stored)"
    and cleared: "try_catch (clear in_data) (\<lambda>_. resolved ()) stored = (Inr (), stored)"
    unfolding stored_def by code_simp+
  have "trim ''a'' \<noteq> []"
    and "js_or (dataPath in_data) (currentDataPath stored) = Some ''/data''"
    and "read_faults stored = []"
    and "map_of (files stored) (canon (join ''/data'' (escapedFileName ''a''))) =
           Some (JSON_stringify N ?doc 0)"
    unfolding stored_def by code_simp+
  then have "fst (get N ''a'' in_data stored) = Inr ?doc"
    by (intro get_stored_file_in_directory [OF _ _ _ _ _ _ serializable_examples(1)]) simp_all
  with written cleared
  show "fst (await (set_storage N ''a'' (Some ?doc) write_in_data)
          (\<lambda>_. await (try_catch (clear in_data) (\<lambda>_. resolved ()))
          (\<lambda>_. get N ''a'' in_data)) fresh_world) = Inr ?doc"
    by (simp add: await_def)
qed

text \<open>
  C8.  \<open>getMany\<close> is to return a mapping with one entry per key.  The function returns
  the entry of the first key only, whatever the keys are, unless it is rejected: the
  values of the other keys are set as properties of promise objects.  With documents stored under \<open>a\<close> and \<open>b\<close>,
  \<open>getMany(['a', 'b'])\<close> has the entry of \<open>a\<close> and none of \<open>b\<close>; with nothing stored it
  has \<open>{}\<close> for \<open>a\<close> and no entry for \<open>b\<close>.
\<close>

theorem getMany_first_key_only:
  "((\<exists>v. fst (getMany (N :: 'n numbers) (k # ks) options w) = Inr [(k, v)]) \<or>
    (\<exists>e. fst (getMany N (k # ks) options w) = Inl e)) \<and>
   fst (await (set_storage N ''a'' (Some (JObj [(''theme'', JStr ''dark'')])) write_in_data)
          (\<lambda>_. await (set_storage N ''b'' (Some (JObj [(''size'', JStr ''large'')])) write_in_data)
          (\<lambda>_. getMany N [''a'', ''b''] in_data)) fresh_world) =
     Inr [(''a'', JObj [(''theme'', JStr ''dark'')])] \<and>
   fst (getMany N [''a'', ''b''] in_data fresh_world) = Inr [(''a'', JObj [])]"
proof (intro conjI)
  let ?a = "JObj [(''theme'', JStr ''dark'')] :: 'n json"
  let ?b = "JObj [(''size'', JStr ''large'')] :: 'n json"
  define first_stored where
    "first_stored = snd (set_storage N ''a'' (Some ?a) write_in_data fresh_world)"
  define stored where
    "stored = snd (set_storage N ''b'' (Some ?b) write_in_data first_stored)"
  define first_read where
    "first_read = snd (get N ''a'' in_data stored)"
  define missing where
    "missing = snd (get N ''a'' in_data fresh_world)"
  show "(\<exists>v. fst (getMany N (k # ks) options w) = Inr [(k, v)]) \<or>
        (\<exists>e. fst (getMany N (k # ks) options w) = Inl e)"
    by (rule getMany_Cons)
  have valid: "trim ''a'' \<noteq> []" "trim ''b'' \<noteq> []"
    by code_simp+
  have written_a: "set_storage N ''a'' (Some ?a) write_in_data fresh_world = (Inr (), first_stored)"
    unfolding first_stored_def by code_simp
  have written_b: "set_storage N ''b'' (Some ?b) write_in_data first_stored = (Inr (), stored)"
    unfolding stored_def first_stored_def by code_simp
  have "js_or (dataPath in_data) (currentDataPath stored) = Some ''/data''"
    and "read_faults stored = []"
    and "map_of (files stored) (canon (join ''/data'' (escapedFileName ''a''))) =
           Some (JSON_stringify N ?a 0)"
    unfolding stored_def first_stored_def by code_simp+
  with valid have a: "fst (get N ''a'' in_data stored) = Inr ?a"
    by (intro get_stored_file_in_directory [OF _ _ _ _ _ _ serializable_examples(1)]) simp_all
  have "js_or (dataPath in_data) (currentDataPath first_read) = Some ''/data''"
    and "read_faults first_read = []"
    and "map_of (files first_read) (canon (join ''/data'' (escapedFileName ''b''))) =
           Some (JSON_stringify N ?b 0)"
    unfolding first_read_def stored_def first_stored_def by code_simp+
  with valid have "fst (get N ''b'' in_data first_read) = Inr ?b"
    by (intro get_stored_file_in_directory [OF _ _ _ _ _ _ serializable_examples(2)]) simp_all
  with a have "fst (getMany N [''a'', ''b''] in_data stored) = Inr [(''a'', ?a)]"
    unfolding first_read_def by (rule getMany_two)
  with written_a written_b
  show "fst (await (set_storage N ''a'' (Some ?a) write_in_data)
          (\<lambda>_. await (set_storage N ''b'' (Some ?b) write_in_data)
          (\<lambda>_. getMany N [''a'', ''b''] in_data)) fresh_world) = Inr [(''a'', ?a)]"
    by (simp add: await_def)
  have "js_or (dataPath in_data) (currentDataPath fresh_world) = Some ''/data''"
    and "read_faults fresh_world = []"
    and "map_of (files fresh_world) (canon (join ''/data'' (escapedFileName ''a''))) = None"
    by code_simp+
  with valid have none_a: "fst (get N ''a'' in_data fresh_world) = Inr (JObj [])"
    by (intro get_missing_file_in_directory) simp_all
  have "js_or (dataPath in_data) (currentDataPath missing) = Some ''/data''"
    and "read_faults missing = []"
    and "map_of (files missing) (canon (join ''/data'' (escapedFileName ''b''))) = None"
    unfolding missing_def by code_simp+
  with valid have "fst (get N ''b'' in_data missing) = Inr (JObj [])"
    by (intro get_missing_file_in_directory) simp_all
  with none_a show "fst (getMany N [''a'', ''b''] in_data fresh_world) = Inr [(''a'', JObj [])]"
    unfolding missing_def by (rule getMany_two)
qed

text \<open>
  C10.  A read that fails with \<open>EPERM\<close> is retried after a sleep of 1000 ms, at most 10
  times.  When the next \<open>k\<close> reads fail with \<open>EPERM\<close> and \<open>k\<close> is at most 10, \<open>readFile\<close>
  sleeps \<open>k\<close> times and its outcome is that of read \<open>k + 1\<close>: the text of the file (or
  \<open>{}\<close> when there is none), or the error of that read when it is neither \<open>EPERM\<close> nor
  \<open>ENOENT\<close>, with no further read; for \<open>k = 0\<close> such an error is surfaced at once.  When
  more than 10 reads fail with \<open>EPERM\<close>, the error is surfaced after 10 retries, 11 reads
  in all and 10 sleeps.
\<close>

theorem readFile_retries_permission_errors:
  assumes "read_faults w = replicate k EPERM @ rest"
  shows "(k \<le> 10 \<and> rest = [] \<longrightarrow>
            readFile N f 0 w =
              (Inr (case map_of (files w) (canon f) of None \<Rightarrow> ''{}'' | Some content \<Rightarrow> content),
               w\<lparr>read_calls := read_calls w + k + 1, read_faults := [], slept := slept w + 1000 * k\<rparr>)) \<and>
         (k \<le> 10 \<and> rest \<noteq> [] \<and> hd rest \<noteq> EPERM \<and> hd rest \<noteq> ENOENT \<longrightarrow>
            readFile N f 0 w =
              (Inl (hd rest),
               w\<lparr>read_calls := read_calls w + k + 1, read_faults := tl rest, slept := slept w + 1000 * k\<rparr>)) \<and>
         (10 < k \<longrightarrow>
            readFile N f 0 w =
              (Inl EPERM,
               w\<lparr>read_calls := read_calls w + 11, read_faults := replicate (k - 11) EPERM @ rest,
                  slept := slept w + 10000\<rparr>))"
proof (intro conjI impI)
  let ?w = "w\<lparr>read_calls := read_calls w + k, read_faults := rest, slept := slept w + 1000 * k\<rparr>"
  {
    assume a: "k \<le> 10 \<and> rest = []"
    then have "readFile N f 0 w = readFile N f (0 + k) ?w"
      using assms by (intro readFile_EPERM_run) simp_all
    also have "\<dots> =
        (Inr (case map_of (files w) (canon f) of None \<Rightarrow> ''{}'' | Some content \<Rightarrow> content),
         w\<lparr>read_calls := read_calls w + k + 1, read_faults := [], slept := slept w + 1000 * k\<rparr>)"
      using a by (subst readFile_unfold) (simp add: readTextFile_def split: option.splits)
    finally show "readFile N f 0 w =
        (Inr (case map_of (files w) (canon f) of None \<Rightarrow> ''{}'' | Some content \<Rightarrow> content),
         w\<lparr>read_calls := read_calls w + k + 1, read_faults := [], slept := slept w + 1000 * k\<rparr>)" .
  }
  {
    assume a: "k \<le> 10 \<and> rest \<noteq> [] \<and> hd rest \<noteq> EPERM \<and> hd rest \<noteq> ENOENT"
    then obtain e rest' where r: "rest = e # rest'" by (cases rest) auto
    from a have "readFile N f 0 w = readFile N f (0 + k) ?w"
      using assms by (intro readFile_EPERM_run) simp_all
    also have "\<dots> =
        (Inl (hd rest),
         w\<lparr>read_calls := read_calls w + k + 1, read_faults := tl rest, slept := slept w + 1000 * k\<rparr>)"
      using a r by (subst readFile_unfold) (simp add: readTextFile_def)
    finally show "readFile N f 0 w =
        (Inl (hd rest),
         w\<lparr>read_calls := read_calls w + k + 1, read_faults := tl rest, slept := slept w + 1000 * k\<rparr>)" .
  }
  {
    assume a: "10 < k"
    let ?fs = "EPERM # replicate (k - 11) EPERM @ rest"
    let ?w10 = "w\<lparr>read_calls := read_calls w + 10, read_faults := ?fs, slept := slept w + 1000 * 10\<rparr>"
    from a have "k = 10 + Suc (k - 11)" by simp
    then have "replicate k EPERM = replicate 10 EPERM @ replicate (Suc (k - 11)) EPERM"
      by (metis replicate_add)
    then have "replicate k EPERM = replicate 10 EPERM @ EPERM # replicate (k - 11) EPERM"
      by simp
    then have "read_faults w = replicate 10 EPERM @ ?fs"
      using assms by simp
    then have "readFile N f 0 w = readFile N f (0 + 10) ?w10"
      by (intro readFile_EPERM_run) simp_all
    also have "\<dots> =
        (Inl EPERM,
         w\<lparr>read_calls := read_calls w + 11, read_faults := replicate (k - 11) EPERM @ rest,
            slept := slept w + 10000\<rparr>)"
      by (subst readFile_unfold) (simp add: readTextFile_def)
    finally show "readFile N f 0 w =
        (Inl EPERM,
         w\<lparr>read_calls := read_calls w + 11, read_faults := replicate (k - 11) EPERM @ rest,
            slept := slept w + 10000\<rparr>)" .
  }
qed

theorem readFile_retries_witness:
  "\<forall>N. readFile N ''/data/notes.txt'' 0 (mixed_world\<lparr>read_faults := replicate 10 EPERM\<rparr>) =
     (Inr ''hello'', mixed_world\<lparr>read_calls := 11, read_faults := [], slept := 10000\<rparr>) \<and>
   readFile N ''/data/notes.txt'' 0 (mixed_world\<lparr>read_faults := [EIO ''EBUSY'']\<rparr>) =
     (Inl (EIO ''EBUSY''), mixed_world\<lparr>read_calls := 1, read_faults := [], slept := 0\<rparr>) \<and>
   readFile N ''/data/notes.txt'' 0 (mixed_world\<lparr>read_faults := replicate 11 EPERM\<rparr>) =
     (Inl EPERM, mixed_world\<lparr>read_calls := 11, read_faults := [], slept := 10000\<rparr>)"
proof
  fix N :: "'n numbers"
  show "readFile N ''/data/notes.txt'' 0 (mixed_world\<lparr>read_faults := replicate 10 EPERM\<rparr>) =
     (Inr ''hello'', mixed_world\<lparr>read_calls := 11, read_faults := [], slept := 10000\<rparr>) \<and>
   readFile N ''/data/notes.txt'' 0 (mixed_world\<lparr>read_faults := [EIO ''EBUSY'']\<rparr>) =
     (Inl (EIO ''EBUSY''), mixed_world\<lparr>read_calls := 1, read_faults := [], slept := 0\<rparr>) \<and>
   readFile N ''/data/notes.txt'' 0 (mixed_world\<lparr>read_faults := replicate 11 EPERM\<rparr>) =
     (Inl EPERM, mixed_world\<lparr>read_calls := 11, read_faults := [], slept := 10000\<rparr>)"
    using
      readFile_retries_permission_errors
        [of "mixed_world\<lparr>read_faults := replicate 10 EPERM\<rparr>" 10 "[]" N "''/data/notes.txt''"]
      readFile_retries_permission_errors
        [of "mixed_world\<lparr>read_faults := [EIO ''EBUSY'']\<rparr>" 0 "[EIO ''EBUSY'']" N "''/data/notes.txt''"]
      readFile_retries_permission_errors
        [of "mixed_world\<lparr>read_faults := replicate 11 EPERM\<rparr>" 11 "[]" N "''/data/notes.txt''"]
    by (simp add: mixed_world_def fresh_world_def canon_def is_sep_def)
qed

text \<open>
  C9.  The file name of a key ends in \<open>.json\<close>, added once.  For a valid key and a
  data directory that resolves, the file is the directory joined with the escaped name;
  the name before escaping is the last portion of the key when that already ends in
  \<open>.json\<close> (the suffix is not added again) and the last portion followed by \<open>.json\<close>
  otherwise; escaping keeps the suffix at the end.  Hence a key and the key followed by
  \<open>.json\<close> name the same file (for a key that does not end in a separator or in
  \<open>.json\<close> itself), \<open>foo.data\<close> gives \<open>foo.data.json\<close>, and \<open>get('foo')\<close> and
  \<open>get('foo.json')\<close> are the same computation.
\<close>

theorem getFileName_appends_json_once:
  assumes "key \<noteq> []" and "trim key \<noteq> []"
    and "fst (dataPath_or_current (dataPath options) w) = Inr (Some dir)" and "dir \<noteq> []"
  shows "getFileName key options w = (Inr (join dir (escapedFileName key)), w) \<and>
         keyFileName key =
           (if ends_with (last_portion key) ''.json'' then last_portion key
            else last_portion key @ ''.json'') \<and>
         escapedFileName key =
           replace_pct20 (replace_star (encodeURIComponent (basename key ''.json''))) @ ''.json'' \<and>
         ends_with (join dir (escapedFileName key)) ''.json'' \<and>
         (\<not> is_sep (last key) \<and> \<not> ends_with (last_portion key) ''.json'' \<longrightarrow>
            getFileName (key @ ''.json'') options w = getFileName key options w \<and>
            get N (key @ ''.json'') options w = get N key options w) \<and>
         fst (getFileName ''foo.data'' options w) = Inr (join dir ''foo.data.json'') \<and>
         getFileName ''foo.json'' options w = getFileName ''foo'' options w \<and>
         get N ''foo.json'' options w = get N ''foo'' options w"
proof (intro conjI impI)
  have dir: "js_or (dataPath options) (currentDataPath w) = Some dir"
    using assms(3) by (simp add: dataPath_or_current_eq)
  show "getFileName key options w = (Inr (join dir (escapedFileName key)), w)"
    using assms(1,2) dir assms(4) by (rule getFileName_resolved)
  show "keyFileName key =
          (if ends_with (last_portion key) ''.json'' then last_portion key
           else last_portion key @ ''.json'')"
    by (rule keyFileName_eq)
  show "escapedFileName key =
          replace_pct20 (replace_star (encodeURIComponent (basename key ''.json''))) @ ''.json''"
    by (rule escapedFileName_json)
  show "ends_with (join dir (escapedFileName key)) ''.json''"
    by (subst escapedFileName_json) (rule ends_with_join)
  {
    assume a: "\<not> is_sep (last key) \<and> \<not> ends_with (last_portion key) ''.json''"
    then have same: "keyFileName (key @ ''.json'') = keyFileName key"
      using assms(1) by (simp add: keyFileName_json)
    have ok: "key @ ''.json'' \<noteq> []" "trim (key @ ''.json'') \<noteq> []"
      by (simp_all add: trim_json)
    show "getFileName (key @ ''.json'') options w = getFileName key options w"
      using getFileName_same_name(1) [OF assms(1,2) ok same] by simp
    show "get N (key @ ''.json'') options w = get N key options w"
      using getFileName_same_name(2) [OF assms(1,2) ok same, of N] by simp
  }
  have data: "escapedFileName ''foo.data'' = ''foo.data.json''" and "trim ''foo.data'' \<noteq> []"
    by code_simp+
  then show "fst (getFileName ''foo.data'' options w) = Inr (join dir ''foo.data.json'')"
    using assms(4) dir by (simp add: getFileName_resolved)
  have foo: "''foo'' \<noteq> []" "trim ''foo'' \<noteq> []" "''foo.json'' \<noteq> []" "trim ''foo.json'' \<noteq> []"
    "keyFileName ''foo.json'' = keyFileName ''foo''"
    by code_simp+
  show "getFileName ''foo.json'' options w = getFileName ''foo'' options w"
    using getFileName_same_name(1) [OF foo] by simp
  show "get N ''foo.json'' options w = get N ''foo'' options w"
    using getFileName_same_name(2) [OF foo, of N] by simp
qed

theorem getFileName_appends_json_once_witness:
  "getFileName ''my settings.json'' in_data fresh_world = (Inr ''/data/my settings.json'', fresh_world) \<and>
   getFileName ''my settings'' in_data fresh_world = (Inr ''/data/my settings.json'', fresh_world) \<and>
   getFileName ''foo.data'' in_data fresh_world = (Inr ''/data/foo.data.json'', fresh_world) \<and>
   getFileName ''foo.json'' in_data fresh_world = getFileName ''foo'' in_data fresh_world"
proof -
  fix N :: "unit numbers"
  have "trim ''my settings'' \<noteq> []"
    and "fst (dataPath_or_current (dataPath in_data) fresh_world) = Inr (Some ''/data'')"
    and "\<not> is_sep (last ''my settings'') \<and> \<not> ends_with (last_portion ''my settings'') ''.json''"
    and "join ''/data'' (escapedFileName ''my settings'') = ''/data/my settings.json''"
    and "getFileName ''foo.data'' in_data fresh_world = (Inr ''/data/foo.data.json'', fresh_world)"
    by code_simp+
  then show ?thesis
    using getFileName_appends_json_once [of "''my settings''" in_data fresh_world "''/data''" N]
    by simp
qed

text \<open>
  C1.  \<open>set\<close> of a document followed by \<open>get\<close> of the same key in the same data
  directory is to return the document, for every valid key.  With a data directory given
  by the option or by the current data path it does, with or without \<open>prettyPrinting\<close>,
  for every document that \<open>JSON.stringify\<close> writes and \<open>JSON.parse\<close> reads back (lemma
  \<open>set_then_get_in_directory\<close>), as for \<open>{theme: 'dark'}\<close> in \<open>/data\<close>.  But in the
  default directory, with no option and no data path set, \<open>set\<close> is rejected with
  \<open>You must explicitly set a data path\<close> for every valid key and every document, nothing
  is written, and \<open>get\<close> is rejected too: \<open>getDataPath\<close> is resolved with \<open>undefined\<close>
  where the default directory is meant (C3).
\<close>

theorem set_then_get_without_data_path_rejected:
  "fst (set_storage N key (Some v) (options\<lparr>dataPath := None\<rparr>) (w\<lparr>currentDataPath := None\<rparr>)) =
     Inl (if key = [] then Missing_key else if trim key = [] then Invalid_key else No_data_path) \<and>
   files (snd (set_storage N key (Some v) (options\<lparr>dataPath := None\<rparr>) (w\<lparr>currentDataPath := None\<rparr>))) =
     files w \<and>
   fst (await (set_storage N key (Some v) (options\<lparr>dataPath := None\<rparr>))
          (\<lambda>_. get N key \<lparr>dataPath = None\<rparr>) (w\<lparr>currentDataPath := None\<rparr>)) =
     Inl (if key = [] then Missing_key else if trim key = [] then Invalid_key else No_data_path) \<and>
   fst (await (set_storage N ''foo'' (Some (JObj [(''theme'', JStr ''dark'')]))
                 \<lparr>dataPath = None, validate = None, prettyPrinting = None\<rparr>)
          (\<lambda>_. get N ''foo'' \<lparr>dataPath = None\<rparr>) fresh_world) = Inl No_data_path \<and>
   fst (getDefaultDataPath fresh_world) = Inr ''/home/user/.local/share/storage'' \<and>
   fst (await (set_storage N ''foo'' (Some (JObj [(''theme'', JStr ''dark'')])) pretty_in_data)
          (\<lambda>_. get N ''foo'' in_data) fresh_world) = Inr (JObj [(''theme'', JStr ''dark'')])"
proof (intro conjI)
  have rejected_set: "set_storage N key (Some v) (options\<lparr>dataPath := None\<rparr>) (w\<lparr>currentDataPath := None\<rparr>) =
      (Inl (if key = [] then Missing_key else if trim key = [] then Invalid_key else No_data_path),
       w\<lparr>currentDataPath := None\<rparr>)"
    for key v options w
    by (simp add: set_storage_def getFileName_def await_def rejected_def dataPath_or_current_eq
        js_or_def truthy_def)
  show "fst (set_storage N key (Some v) (options\<lparr>dataPath := None\<rparr>) (w\<lparr>currentDataPath := None\<rparr>)) =
     Inl (if key = [] then Missing_key else if trim key = [] then Invalid_key else No_data_path)"
    by (simp add: rejected_set)
  show "files (snd (set_storage N key (Some v) (options\<lparr>dataPath := None\<rparr>) (w\<lparr>currentDataPath := None\<rparr>))) =
     files w"
    by (simp add: rejected_set)
  show "fst (await (set_storage N key (Some v) (options\<lparr>dataPath := None\<rparr>))
          (\<lambda>_. get N key \<lparr>dataPath = None\<rparr>) (w\<lparr>currentDataPath := None\<rparr>)) =
     Inl (if key = [] then Missing_key else if trim key = [] then Invalid_key else No_data_path)"
    by (simp add: await_def rejected_set)
  have foo: "trim ''foo'' \<noteq> []"
    by code_simp
  have "fresh_world\<lparr>currentDataPath := None\<rparr> = fresh_world"
    and "\<lparr>dataPath = None, validate = None, prettyPrinting = None\<rparr>\<lparr>dataPath := None\<rparr> =
         \<lparr>dataPath = None, validate = None, prettyPrinting = None\<rparr>"
    by (simp_all add: fresh_world_def)
  with foo
    rejected_set [of "''foo''" "JObj [(''theme'', JStr ''dark'')]"
      "\<lparr>dataPath = None, validate = None, prettyPrinting = None\<rparr>" fresh_world]
  show "fst (await (set_storage N ''foo'' (Some (JObj [(''theme'', JStr ''dark'')]))
                 \<lparr>dataPath = None, validate = None, prettyPrinting = None\<rparr>)
          (\<lambda>_. get N ''foo'' \<lparr>dataPath = None\<rparr>) fresh_world) = Inl No_data_path"
    by (simp add: await_def)
  show "fst (getDefaultDataPath fresh_world) = Inr ''/home/user/.local/share/storage''"
    by code_simp
  have "js_or (dataPath pretty_in_data) (currentDataPath fresh_world) = Some ''/data''"
    and "read_faults fresh_world = []"
    and "\<lparr>dataPath = dataPath pretty_in_data\<rparr> = in_data"
    by code_simp+
  with foo serializable_examples(1) [of N]
    set_then_get_in_directory [of "''foo''" pretty_in_data fresh_world "''/data''" N
      "JObj [(''theme'', JStr ''dark'')]"]
  show "fst (await (set_storage N ''foo'' (Some (JObj [(''theme'', JStr ''dark'')])) pretty_in_data)
          (\<lambda>_. get N ''foo'' in_data) fresh_world) = Inr (JObj [(''theme'', JStr ''dark'')])"
    by simp
qed

end
